(* ===== verification/Auth_Base.thy ===== *)
theory Auth_Base
  imports Main "HOL-Library.Multiset" "HOL-Library.Char_ord" "HOL-Library.List_Lexorder"
begin

text \<open>
  Shared vocabulary of the scuttlespace-service-auth model: the JavaScript
  notions the sources rely on (truthiness of optional strings,
  \<open>Array.prototype.join\<close> and \<open>String.prototype.split\<close> with a one-character
  separator, the default string \<open>sort\<close>), the service result type of
  scuttlespace-api-common, the exceptions the code throws, and the list
  lemmas the component theories share.
\<close>

named_theorems store_simps "row-level facts on the modelled tables"

section \<open>Errors and service results\<close>

text \<open>
  The error codes the sources raise (\<open>exception(code, ...)\<close>), return in an
  \<open>ErrorResult\<close>, or that the store and the helper \<open>errors.singleOrNone\<close>
  raise on their behalf.
\<close>

datatype error_code =
    INVALID_ARGS
  | USER_NOT_FOUND
  | NO_MANAGE_PERMISSION
  | NO_ACCOUNT
  | CANNOT_DELETE_ACTIVE_ACCOUNT
  | DATA_INTEGRITY_VIOLATION
  | MALFORMED_PERMISSION_TOKEN
  | UNIQUE_VIOLATION

text \<open>
  A thrown exception: \<open>exception(code, message)\<close> of the sources, or a
  JavaScript \<open>TypeError\<close> (reading a field of \<open>undefined\<close>).
\<close>

datatype exn = Exception error_code string | TypeError string

text \<open>\<open>ServiceResult<T>\<close>: \<open>new ValidResult(x)\<close> or \<open>new ErrorResult({code, message})\<close>.\<close>

datatype 'a service_result = ValidResult 'a | ErrorResult error_code string

section \<open>JavaScript helpers\<close>

text \<open>Truthiness of an optional string field: \<open>undefined\<close> and \<open>""\<close> are falsy.\<close>

fun truthy :: "string option \<Rightarrow> bool" where
  "truthy None = False"
| "truthy (Some s) = (s \<noteq> [])"

text \<open>\<open>xs.join(c)\<close>.\<close>

fun join :: "char \<Rightarrow> string list \<Rightarrow> string" where
  "join c [] = []"
| "join c [w] = w"
| "join c (w # v # ws) = w @ c # join c (v # ws)"

text \<open>\<open>s.split(c)\<close>: \<open>"".split(c)\<close> is \<open>[""]\<close>, so the result is never empty.\<close>

fun split_on :: "char \<Rightarrow> string \<Rightarrow> string list" where
  "split_on c [] = [[]]"
| "split_on c (x # xs) =
     (let ws = split_on c xs in
      if x = c then [] # ws else (x # hd ws) # tl ws)"

text \<open>Running a fallible function over a list, stopping at the first exception.\<close>

fun traverse :: "('a \<Rightarrow> 'e + 'b) \<Rightarrow> 'a list \<Rightarrow> 'e + 'b list" where
  "traverse f [] = Inr []"
| "traverse f (x # xs) =
     (case f x of Inl e \<Rightarrow> Inl e
      | Inr y \<Rightarrow> (case traverse f xs of Inl e \<Rightarrow> Inl e | Inr ys \<Rightarrow> Inr (y # ys)))"

text \<open>
  \<open>await f(); rest\<close> where \<open>f\<close> may throw: the rest runs only when \<open>f\<close>
  returned.
\<close>

definition sbind :: "'e + 'a \<Rightarrow> ('a \<Rightarrow> 'e + 'b) \<Rightarrow> 'e + 'b" where
  "sbind m f = (case m of Inl e \<Rightarrow> Inl e | Inr x \<Rightarrow> f x)"

section \<open>Shared lemmas\<close>

lemma sbind_Inl [simp]: "sbind (Inl e) f = Inl e"
  by (simp add: sbind_def)

lemma sbind_Inr [simp]: "sbind (Inr x) f = f x"
  by (simp add: sbind_def)

lemma sbind_eq_Inr:
  "sbind m f = Inr y \<longleftrightarrow> (\<exists>x. m = Inr x \<and> f x = Inr y)"
  by (cases m) auto

lemma split_on_not_Nil [simp]: "split_on c s \<noteq> []"
  by (induction s) (auto simp: Let_def)

lemma split_on_append_free:
  "c \<notin> set w \<Longrightarrow> split_on c (w @ s) = (w @ hd (split_on c s)) # tl (split_on c s)"
  by (induction w) (auto simp: Let_def)

lemma split_on_join [simp]:
  "ws \<noteq> [] \<Longrightarrow> \<forall>w \<in> set ws. c \<notin> set w \<Longrightarrow> split_on c (join c ws) = ws"
proof (induction c ws rule: join.induct)
  case (2 c w)
  then show ?case using split_on_append_free [of c w "[]"] by simp
next
  case (3 c w v ws)
  then show ?case using split_on_append_free [of c w "c # join c (v # ws)"] by (simp add: Let_def)
qed simp

lemma join_split_on [simp]: "join c (split_on c s) = s"
proof (induction s)
  case (Cons x xs)
  then show ?case
    by (cases "split_on c xs" rule: remdups_adj.cases) (auto simp: Let_def)
qed simp

lemma join_Nil_iff: "join c ws = [] \<longleftrightarrow> ws = [] \<or> ws = [[]]"
  by (induction c ws rule: join.induct) auto

lemma traverse_Inr_map [simp]:
  "(\<And>x. x \<in> set xs \<Longrightarrow> f x = Inr (g x)) \<Longrightarrow> traverse f xs = Inr (map g xs)"
  by (induction xs) auto

lemma traverse_Inr_length:
  "traverse f xs = Inr ys \<Longrightarrow> length ys = length xs"
  by (induction xs arbitrary: ys) (auto split: sum.splits)

lemma traverse_Inr_nth:
  "traverse f xs = Inr ys \<Longrightarrow> i < length xs \<Longrightarrow> f (xs ! i) = Inr (ys ! i)"
proof (induction xs arbitrary: ys i)
  case (Cons x xs)
  then show ?case by (cases i) (auto split: sum.splits)
qed simp

lemma traverse_map_inverse:
  "\<forall>x \<in> set xs. f (h x) = Inr x \<Longrightarrow> traverse f (map h xs) = Inr xs"
  by (induction xs) auto

lemma traverse_Inr_map_eq:
  "traverse f xs = Inr ys \<Longrightarrow> (\<And>x y. f x = Inr y \<Longrightarrow> h y = x) \<Longrightarrow> map h ys = xs"
  by (induction xs arbitrary: ys) (auto split: sum.splits)

lemma traverse_Inr_set:
  "traverse f xs = Inr ys \<Longrightarrow> y \<in> set ys \<Longrightarrow> \<exists>x \<in> set xs. f x = Inr y"
  by (induction xs arbitrary: ys) (auto split: sum.splits)

lemma sort_map_sort_key: "sort (map f xs) = map f (sort_key f xs)"
proof (induction xs)
  case (Cons x xs)
  have "insort (f x) (map f ys) = map f (insort_key f x ys)" for ys
    by (induction ys) auto
  with Cons show ?case by simp
qed simp

lemma distinct_filter_map_filter:
  "distinct (filter Q (map g t)) \<Longrightarrow> distinct (filter Q (map g (filter P t)))"
  by (induction t) auto

lemma length_filter_Suc0_conv:
  "length (filter P xs) = Suc 0 \<longleftrightarrow> (\<exists>r. filter P xs = [r])"
  by (auto simp: length_Suc_conv)

lemma sum_list_map_update:
  "i < length xs \<Longrightarrow>
   sum_list (map f (xs[i := x])) + f (xs ! i) = sum_list (map f xs) + (f x :: nat)"
proof (induction xs arbitrary: i)
  case (Cons y ys) then show ?case by (cases i) auto
qed simp

lemma list_all_list_update:
  "list_all P xs \<Longrightarrow> P x \<Longrightarrow> list_all P (xs[i := x])"
  by (auto simp: list_all_iff dest: subsetD [OF set_update_subset_insert])

lemma apfst_fst_snd: "apfst f x = (f (fst x), snd x)"
  by (cases x) simp

lemma distinct_map_eqD:
  "distinct (map g xs) \<Longrightarrow> x \<in> set xs \<Longrightarrow> y \<in> set xs \<Longrightarrow> g x = g y \<Longrightarrow> x = y"
  by (auto simp: distinct_map dest: inj_onD)

lemma distinct_filter_map_eqD:
  "distinct (filter P (map g xs)) \<Longrightarrow> x \<in> set xs \<Longrightarrow> y \<in> set xs \<Longrightarrow> g x = g y \<Longrightarrow>
   P (g x) \<Longrightarrow> x = y"
  by (auto simp: filter_map distinct_map dest: inj_onD)

end
