(* ===== verification/Store.thy ===== *)
theory Store
  imports Auth_Base
begin

text \<open>
  The relational store the services talk to through \<open>pool.query\<close>: the four
  tables the sources name, each a list of rows (SQL gives no order, and the
  code's \<open>rows[0]\<close> is the head of the list), and the row-level statements
  \<open>SELECT * ... WHERE\<close>, \<open>INSERT\<close>, \<open>UPDATE ... WHERE\<close> and \<open>DELETE ... WHERE\<close>.
  The \<open>account\<close> table carries the UNIQUE constraints of the schema; an
  \<open>UPDATE\<close> that would break one fails with a unique violation, as PostgreSQL
  does. The other tables get no constraint: the code keeps them unique by
  itself, which the component theories prove.
  Also here: the helpers \<open>errors.singleOrNone\<close>, \<open>exception\<close> and
  \<open>parseServiceResult\<close>, which the sources import but do not contain.
\<close>

section \<open>Rows and tables\<close>

text \<open>
  A row of \<open>account\<close> (columns \<open>network_id, username, domain, about, enabled\<close>);
  the rows of \<open>scuttlespace_user\<close> have the same columns, with \<open>external_id\<close>
  as the identity column, and share the type (\<open>network_id\<close> standing for it).
\<close>

record account_row =
  network_id :: string
  acc_username :: string
  acc_domain :: "string option"
  acc_about :: string
  acc_enabled :: bool

text \<open>A row of \<open>account_permissions\<close> (add-permissions.ts).\<close>

record ap_row =
  ap_network_id :: string
  ap_permissions :: string
  ap_username :: string

text \<open>A row of \<open>user_permissions\<close> (permissions/clear.ts, permissions/get.ts).\<close>

record up_row =
  up_assignee_external_id :: string
  up_assigner_external_id :: string
  up_permissions :: string

record db =
  account :: "account_row list"
  scuttlespace_user :: "account_row list"
  account_permissions :: "ap_row list"
  user_permissions :: "up_row list"

definition empty_db :: db where
  "empty_db = \<lparr>account = [], scuttlespace_user = [], account_permissions = [],
     user_permissions = []\<rparr>"

section \<open>Statements\<close>

text \<open>\<open>SELECT * FROM t WHERE P\<close>.\<close>

definition select_rows :: "('r \<Rightarrow> bool) \<Rightarrow> 'r list \<Rightarrow> 'r list" where
  "select_rows P t = filter P t"

text \<open>\<open>UPDATE t SET ... WHERE P\<close>, without constraint checks.\<close>

definition update_rows :: "('r \<Rightarrow> bool) \<Rightarrow> ('r \<Rightarrow> 'r) \<Rightarrow> 'r list \<Rightarrow> 'r list" where
  "update_rows P f t = map (\<lambda>r. if P r then f r else r) t"

text \<open>\<open>DELETE FROM t WHERE P\<close>.\<close>

definition delete_rows :: "('r \<Rightarrow> bool) \<Rightarrow> 'r list \<Rightarrow> 'r list" where
  "delete_rows P t = filter (\<lambda>r. \<not> P r) t"

text \<open>\<open>INSERT INTO t VALUES r\<close>.\<close>

definition insert_row :: "'r \<Rightarrow> 'r list \<Rightarrow> 'r list" where
  "insert_row r t = t @ [r]"

text \<open>
  The UNIQUE constraints of \<open>account\<close>: \<open>network_id\<close> (primary key),
  \<open>username\<close>, and \<open>domain\<close> where it is not NULL.
\<close>

definition account_unique :: "account_row list \<Rightarrow> bool" where
  "account_unique t \<longleftrightarrow>
     distinct (map network_id t) \<and> distinct (map acc_username t) \<and>
     distinct (filter (\<lambda>d. d \<noteq> None) (map acc_domain t))"

text \<open>\<open>UPDATE account SET ... WHERE P\<close>: refused when the result breaks a constraint.\<close>

definition update_account ::
  "(account_row \<Rightarrow> bool) \<Rightarrow> (account_row \<Rightarrow> account_row) \<Rightarrow> db \<Rightarrow> exn + db" where
  "update_account P f s =
     (let t = update_rows P f (account s) in
      if account_unique t then Inr (s\<lparr>account := t\<rparr>)
      else Inl (Exception UNIQUE_VIOLATION ''duplicate key value violates unique constraint''))"

section \<open>Helpers the sources import\<close>

text \<open>
  \<open>errors.singleOrNone(rows)\<close>: more than one row for a key the schema makes
  unique is a data-integrity violation and is thrown; otherwise the row, if any.
\<close>

definition singleOrNone :: "'r list \<Rightarrow> exn + 'r option" where
  "singleOrNone rows =
     (if 1 < length rows
      then Inl (Exception DATA_INTEGRITY_VIOLATION ''Expected a single row or none.'')
      else Inr (case rows of [] \<Rightarrow> None | r # _ \<Rightarrow> Some r))"

text \<open>\<open>exception(code, message)\<close> throws.\<close>

definition exception :: "error_code \<Rightarrow> string \<Rightarrow> exn + 'a" where
  "exception code msg = Inl (Exception code msg)"

text \<open>\<open>parseServiceResult(r)\<close>: the data of a \<open>ValidResult\<close>; an \<open>ErrorResult\<close> is thrown.\<close>

fun parseServiceResult :: "exn + 'a service_result \<Rightarrow> exn + 'a" where
  "parseServiceResult (Inl e) = Inl e"
| "parseServiceResult (Inr (ValidResult x)) = Inr x"
| "parseServiceResult (Inr (ErrorResult c m)) = Inl (Exception c m)"

section \<open>Lemmas on the statements\<close>

lemma update_rows_no_match [simp, store_simps]:
  "\<forall>r \<in> set t. \<not> P r \<Longrightarrow> update_rows P f t = t"
  by (induction t) (auto simp: update_rows_def)

lemma length_update_rows [simp, store_simps]: "length (update_rows P f t) = length t"
  by (simp add: update_rows_def)

lemma map_update_rows_keep [store_simps]:
  "(\<And>r. g (f r) = g r) \<Longrightarrow> map g (update_rows P f t) = map g t"
  by (induction t) (auto simp: update_rows_def)

lemma image_update_rows_keep [store_simps]:
  "(\<And>r. g (f r) = g r) \<Longrightarrow> g ` set (update_rows P f t) = g ` set t"
  by (metis map_update_rows_keep set_map)

lemma filter_update_rows_keep [store_simps]:
  "(\<And>r. Q (f r) = Q r) \<Longrightarrow> \<forall>r \<in> set t. P r \<longrightarrow> Q r \<Longrightarrow>
   filter Q (update_rows P f t) = update_rows P f (filter Q t)"
  by (induction t) (auto simp: update_rows_def)

lemma filter_update_rows_other [store_simps]:
  "(\<And>r. Q (f r) = Q r) \<Longrightarrow> \<forall>r \<in> set t. P r \<longrightarrow> \<not> Q r \<Longrightarrow>
   filter Q (update_rows P f t) = filter Q t"
  by (induction t) (auto simp: update_rows_def)


lemma update_rows_key_nth [store_simps]:
  "distinct (map k t) \<Longrightarrow> i < length t \<Longrightarrow>
   update_rows (\<lambda>r. k r = k (t ! i)) f t = t[i := f (t ! i)]"
proof (induction t arbitrary: i)
  case (Cons x t)
  show ?case
  proof (cases i)
    case 0
    from Cons.prems have "\<forall>r \<in> set t. \<not> k r = k x" by (auto simp: image_iff)
    then have "update_rows (\<lambda>r. k r = k x) f t = t" by (simp add: update_rows_no_match)
    with 0 show ?thesis by (simp add: update_rows_def)
  next
    case (Suc j)
    from Cons.prems Suc have "k x \<noteq> k (t ! j)" by (auto simp: image_iff dest: nth_mem)
    with Cons Suc show ?thesis by (simp add: update_rows_def)
  qed
qed simp

lemma delete_rows_key [store_simps]:
  "distinct (map k t) \<Longrightarrow> r \<in> set t \<Longrightarrow> delete_rows (\<lambda>x. k x = k r) t = remove1 r t"
proof (induction t)
  case (Cons x t)
  show ?case
  proof (cases "x = r")
    case True
    with Cons.prems have "\<forall>y \<in> set t. k y \<noteq> k r" by (auto simp: image_iff)
    with True show ?thesis by (simp add: delete_rows_def)
  next
    case False
    with Cons.prems have "r \<in> set t" "k x \<noteq> k r" by (auto simp: image_iff)
    with Cons False show ?thesis by (simp add: delete_rows_def)
  qed
qed simp

lemma filter_distinct_key_single:
  "distinct (map k t) \<Longrightarrow> r \<in> set t \<Longrightarrow> filter (\<lambda>x. k x = k r) t = [r]"
  by (induction t) (auto simp: filter_empty_conv image_iff)

lemma filter_distinct_key_le1:
  "distinct (map k t) \<Longrightarrow> length (filter (\<lambda>x. k x = v) t) \<le> 1"
proof (induction t)
  case (Cons x t)
  then show ?case by (auto simp: filter_empty_conv image_iff)
qed simp

lemma account_unique_Nil [simp]: "account_unique []"
  by (simp add: account_unique_def)

lemma account_unique_keep_keys [store_simps]:
  assumes "account_unique t"
    and "\<And>r. network_id (f r) = network_id r"
    and "\<And>r. acc_username (f r) = acc_username r"
    and "\<And>r. acc_domain (f r) = acc_domain r"
  shows "account_unique (update_rows P f t)"
  using assms by (simp add: account_unique_def map_update_rows_keep)

lemma account_unique_delete [store_simps]:
  "account_unique t \<Longrightarrow> account_unique (delete_rows P t)"
  by (simp add: account_unique_def delete_rows_def distinct_map_filter
      distinct_filter_map_filter)

lemma select_rows_update_rows:
  "(\<And>r. P (f r) = P r) \<Longrightarrow> select_rows P (update_rows P f t) = map f (select_rows P t)"
  by (induction t) (auto simp: select_rows_def update_rows_def)

lemma select_rows_delete_rows [store_simps]: "select_rows P (delete_rows P t) = []"
  by (simp add: select_rows_def delete_rows_def)

lemma list_all_update_rows:
  "list_all P t \<Longrightarrow> (\<And>r. P (f r)) \<Longrightarrow> list_all P (update_rows Q f t)"
  by (induction t) (auto simp: update_rows_def)

lemma length_filter_update_rows [store_simps]:
  "(\<And>r. Q (f r) = Q r) \<Longrightarrow> length (filter Q (update_rows P f t)) = length (filter Q t)"
  by (induction t) (auto simp: update_rows_def)

lemma update_rows_mem:
  "x \<in> set t \<Longrightarrow> P x \<Longrightarrow> f x \<in> set (update_rows P f t)"
  "x \<in> set t \<Longrightarrow> \<not> P x \<Longrightarrow> x \<in> set (update_rows P f t)"
  by (induction t) (auto simp: update_rows_def)

lemma parseServiceResult_Inr_iff: "parseServiceResult x = Inr y \<longleftrightarrow> x = Inr (ValidResult y)"
  by (cases x rule: parseServiceResult.cases) auto

end
