(* ===== verification/Lifecycle.thy ===== *)
theory Lifecycle
  imports Store
begin

text \<open>
  The account lifecycle guard, src/src/modify-account.ts: the existence check
  \<open>ensureAccountExists\<close>, the field editors \<open>editAbout\<close>, \<open>editDomain\<close>,
  \<open>editUsername\<close>, the switches \<open>enable\<close> and \<open>disable\<close>, and \<open>destroy\<close>.
  Each operation takes the store and returns the service result with the
  store after its statements, or the exception it throws (the store is then
  unchanged: no operation writes before it can throw).
  The lemmas: every operation on a missing account throws \<open>USER_NOT_FOUND\<close>
  and writes nothing; \<open>destroy\<close> refuses an enabled account and deletes a
  disabled one; the editors and switches change exactly the fields they
  name; the \<open>account\<close> constraints hold after every operation.
\<close>

section \<open>Definitions\<close>

text \<open>\<open>ensureAccountExists\<close> (lines 11--30).\<close>

definition ensureAccountExists :: "string \<Rightarrow> db \<Rightarrow> exn + unit" where
  "ensureAccountExists n s =
     (let existing = select_rows (\<lambda>r. network_id r = n) (account s) in
      if length existing = 0
      then exception USER_NOT_FOUND (''The user '' @ n @ '' does not exist.'')
      else Inr ())"

text \<open>\<open>editAbout\<close> (lines 32--48).\<close>

definition editAbout :: "string \<Rightarrow> string \<Rightarrow> db \<Rightarrow> exn + unit service_result \<times> db" where
  "editAbout new_about n s =
     sbind (ensureAccountExists n s) (\<lambda>_.
     sbind (update_account (\<lambda>r. network_id r = n) (\<lambda>r. r\<lparr>acc_about := new_about\<rparr>) s) (\<lambda>s'.
     Inr (ValidResult (), s')))"

text \<open>\<open>editDomain\<close> (lines 50--66).\<close>

definition editDomain :: "string \<Rightarrow> string \<Rightarrow> db \<Rightarrow> exn + unit service_result \<times> db" where
  "editDomain new_domain n s =
     sbind (ensureAccountExists n s) (\<lambda>_.
     sbind (update_account (\<lambda>r. network_id r = n) (\<lambda>r. r\<lparr>acc_domain := Some new_domain\<rparr>) s) (\<lambda>s'.
     Inr (ValidResult (), s')))"

text \<open>\<open>editUsername\<close> (lines 68--84).\<close>

definition editUsername :: "string \<Rightarrow> string \<Rightarrow> db \<Rightarrow> exn + unit service_result \<times> db" where
  "editUsername new_username n s =
     sbind (ensureAccountExists n s) (\<lambda>_.
     sbind (update_account (\<lambda>r. network_id r = n) (\<lambda>r. r\<lparr>acc_username := new_username\<rparr>) s) (\<lambda>s'.
     Inr (ValidResult (), s')))"

text \<open>\<open>enable\<close> (lines 86--100).\<close>

definition enable :: "string \<Rightarrow> db \<Rightarrow> exn + unit service_result \<times> db" where
  "enable n s =
     sbind (ensureAccountExists n s) (\<lambda>_.
     sbind (update_account (\<lambda>r. network_id r = n) (\<lambda>r. r\<lparr>acc_enabled := True\<rparr>) s) (\<lambda>s'.
     Inr (ValidResult (), s')))"

text \<open>\<open>disable\<close> (lines 102--116).\<close>

definition disable :: "string \<Rightarrow> db \<Rightarrow> exn + unit service_result \<times> db" where
  "disable n s =
     sbind (ensureAccountExists n s) (\<lambda>_.
     sbind (update_account (\<lambda>r. network_id r = n) (\<lambda>r. r\<lparr>acc_enabled := False\<rparr>) s) (\<lambda>s'.
     Inr (ValidResult (), s')))"

text \<open>
  \<open>destroy\<close> (lines 118--141): re-reads the row and tests \<open>rows[0].enabled\<close>;
  with no row, \<open>rows[0]\<close> is \<open>undefined\<close> and the field read throws a
  \<open>TypeError\<close>.
\<close>

definition destroy :: "string \<Rightarrow> db \<Rightarrow> exn + unit service_result \<times> db" where
  "destroy n s =
     sbind (ensureAccountExists n s) (\<lambda>_.
     (let rows = select_rows (\<lambda>r. network_id r = n) (account s) in
      case rows of
        [] \<Rightarrow> Inl (TypeError ''Cannot read properties of undefined (reading 'enabled')'')
      | r # _ \<Rightarrow>
          if \<not> acc_enabled r
          then Inr (ValidResult (), s\<lparr>account := delete_rows (\<lambda>r. network_id r = n) (account s)\<rparr>)
          else Inr (ErrorResult CANNOT_DELETE_ACTIVE_ACCOUNT
                      ''An account in active status cannot be deleted.'', s)))"

section \<open>Lemmas\<close>

lemma ensureAccountExists_iff:
  "ensureAccountExists n s = Inr () \<longleftrightarrow> (\<exists>r \<in> set (account s). network_id r = n)"
  by (auto simp: ensureAccountExists_def select_rows_def exception_def filter_empty_conv)

lemma ensureAccountExists_missing:
  "\<forall>r \<in> set (account s). network_id r \<noteq> n \<Longrightarrow>
   ensureAccountExists n s = Inl (Exception USER_NOT_FOUND (''The user '' @ n @ '' does not exist.''))"
  by (simp add: ensureAccountExists_def select_rows_def exception_def filter_empty_conv)

lemma ensureAccountExists_present:
  "r \<in> set (account s) \<Longrightarrow> network_id r = n \<Longrightarrow> ensureAccountExists n s = Inr ()"
  using ensureAccountExists_iff by blast

lemmas lifecycle_defs = editAbout_def editDomain_def editUsername_def enable_def disable_def
  destroy_def

lemma update_account_keep_keys:
  assumes "account_unique (account s)"
    and "\<And>r. network_id (f r) = network_id r"
    and "\<And>r. acc_username (f r) = acc_username r"
    and "\<And>r. acc_domain (f r) = acc_domain r"
  shows "update_account P f s = Inr (s\<lparr>account := update_rows P f (account s)\<rparr>)"
  using account_unique_keep_keys [OF assms] by (simp add: update_account_def)

lemma update_account_Inr:
  "update_account P f s = Inr s' \<Longrightarrow> account_unique (account s') \<and> s' = s\<lparr>account := account s'\<rparr>"
  by (auto simp: update_account_def Let_def split: if_splits)

lemma editor_Inr:
  assumes "sbind e (\<lambda>_. sbind (update_account P f s) (\<lambda>s'. Inr (ValidResult (), s'))) = Inr (res, s')"
  shows "account_unique (account s') \<and> s' = s\<lparr>account := account s'\<rparr>"
  using assms update_account_Inr by (auto simp: sbind_eq_Inr)

lemma destroy_Inr:
  assumes "account_unique (account s)" and "destroy n s = Inr (res, s')"
  shows "account_unique (account s') \<and> s' = s\<lparr>account := account s'\<rparr>"
  using assms account_unique_delete
  by (auto simp: destroy_def sbind_eq_Inr Let_def split: list.splits if_splits)

lemma lifecycle_frame:
  assumes "r \<in> {editAbout x n s, editDomain x n s, editUsername x n s, enable n s, disable n s, destroy n s}"
    and "r = Inr (res, s')"
  shows "s' = s\<lparr>account := account s'\<rparr>"
proof -
  have ed: "s' = s\<lparr>account := account s'\<rparr>"
    if "sbind (ensureAccountExists n s) (\<lambda>_. sbind (update_account P f s)
          (\<lambda>s'. Inr (ValidResult (), s'))) = Inr (res, s')" for P f
    using editor_Inr [OF that] by blast
  have de: "s' = s\<lparr>account := account s'\<rparr>" if "destroy n s = Inr (res, s')"
    using that by (auto simp: destroy_def sbind_eq_Inr Let_def split: list.splits if_splits)
  show ?thesis
    using assms ed de unfolding editAbout_def editDomain_def editUsername_def enable_def disable_def
    by blast
qed

lemma lifecycle_Inr:
  assumes "account_unique (account s)"
  shows "editAbout a n s = Inr (res, s') \<Longrightarrow> account_unique (account s') \<and> s' = s\<lparr>account := account s'\<rparr>"
    and "editDomain d n s = Inr (res, s') \<Longrightarrow> account_unique (account s') \<and> s' = s\<lparr>account := account s'\<rparr>"
    and "editUsername u n s = Inr (res, s') \<Longrightarrow> account_unique (account s') \<and> s' = s\<lparr>account := account s'\<rparr>"
    and "enable n s = Inr (res, s') \<Longrightarrow> account_unique (account s') \<and> s' = s\<lparr>account := account s'\<rparr>"
    and "disable n s = Inr (res, s') \<Longrightarrow> account_unique (account s') \<and> s' = s\<lparr>account := account s'\<rparr>"
    and "destroy n s = Inr (res, s') \<Longrightarrow> account_unique (account s') \<and> s' = s\<lparr>account := account s'\<rparr>"
  by (auto simp: editAbout_def editDomain_def editUsername_def enable_def disable_def
      dest: editor_Inr destroy_Inr [OF assms])

lemma update_account_clash:
  assumes "a \<in> set (account s)" and "b \<in> set (account s)" and "P a" and "\<not> P b"
    and "network_id (f a) \<noteq> network_id b"
    and "acc_username (f a) = acc_username b \<or> (acc_domain (f a) = acc_domain b \<and> acc_domain b \<noteq> None)"
  shows "update_account P f s =
    Inl (Exception UNIQUE_VIOLATION ''duplicate key value violates unique constraint'')"
proof -
  let ?t = "update_rows P f (account s)"
  have fa: "f a \<in> set ?t" using assms(1,3) by (rule update_rows_mem(1))
  have b: "b \<in> set ?t" using assms(2,4) by (rule update_rows_mem(2))
  have ne: "f a \<noteq> b" using assms(5) by auto
  have "\<not> account_unique ?t"
  proof
    assume uq: "account_unique ?t"
    from assms(6) consider (name) "acc_username (f a) = acc_username b"
      | (dom) "acc_domain (f a) = acc_domain b" and "acc_domain b \<noteq> None" by blast
    then have "f a = b"
    proof cases
      case name
      have "distinct (map acc_username ?t)" using uq by (simp add: account_unique_def)
      then show ?thesis using fa b name by (rule distinct_map_eqD)
    next
      case dom
      have "distinct (filter (\<lambda>d. d \<noteq> None) (map acc_domain ?t))"
        using uq by (simp add: account_unique_def)
      then show ?thesis using fa b dom(1) by (rule distinct_filter_map_eqD) (simp add: dom)
    qed
    with ne show False ..
  qed
  then show ?thesis by (simp add: update_account_def)
qed

section \<open>Properties of the lifecycle guard\<close>

text \<open>
  C12: every operation checks that the account exists first. On a network id
  with no account row, each of editAbout, editDomain, editUsername, enable,
  disable and destroy throws \<open>USER_NOT_FOUND\<close> and writes nothing.
\<close>

theorem lifecycle_guard:
  assumes "\<forall>r \<in> set (account s). network_id r \<noteq> n"
  shows "editAbout a n s = Inl (Exception USER_NOT_FOUND (''The user '' @ n @ '' does not exist.'')) \<and>
    editDomain d n s = Inl (Exception USER_NOT_FOUND (''The user '' @ n @ '' does not exist.'')) \<and>
    editUsername u n s = Inl (Exception USER_NOT_FOUND (''The user '' @ n @ '' does not exist.'')) \<and>
    enable n s = Inl (Exception USER_NOT_FOUND (''The user '' @ n @ '' does not exist.'')) \<and>
    disable n s = Inl (Exception USER_NOT_FOUND (''The user '' @ n @ '' does not exist.'')) \<and>
    destroy n s = Inl (Exception USER_NOT_FOUND (''The user '' @ n @ '' does not exist.''))"
  using ensureAccountExists_missing [OF assms] by (simp add: lifecycle_defs)

text \<open>
  C10: an enabled account is never deleted. On an enabled account,
  \<open>destroy\<close> returns \<open>CANNOT_DELETE_ACTIVE_ACCOUNT\<close> as a result value, not
  an exception, and the store is unchanged.
\<close>

theorem destroy_active:
  assumes "account_unique (account s)" and "r \<in> set (account s)" and "acc_enabled r"
  shows "destroy (network_id r) s =
    Inr (ErrorResult CANNOT_DELETE_ACTIVE_ACCOUNT ''An account in active status cannot be deleted.'', s)"
proof -
  have "select_rows (\<lambda>x. network_id x = network_id r) (account s) = [r]"
    using assms(1,2) by (simp add: select_rows_def account_unique_def filter_distinct_key_single)
  with assms(2,3) show ?thesis
    by (simp add: destroy_def ensureAccountExists_present)
qed

text \<open>
  C11: a disabled account is deleted. On a disabled account, \<open>destroy\<close>
  succeeds and removes exactly that account's row; the other rows and the
  other tables are unchanged.
\<close>

theorem destroy_disabled:
  assumes "account_unique (account s)" and "r \<in> set (account s)" and "\<not> acc_enabled r"
  shows "destroy (network_id r) s = Inr (ValidResult (), s\<lparr>account := remove1 r (account s)\<rparr>)"
proof -
  have d: "distinct (map network_id (account s))"
    using assms(1) by (simp add: account_unique_def)
  have "select_rows (\<lambda>x. network_id x = network_id r) (account s) = [r]"
    using d assms(2) by (simp add: select_rows_def filter_distinct_key_single)
  moreover have "delete_rows (\<lambda>x. network_id x = network_id r) (account s) = remove1 r (account s)"
    using d assms(2) by (rule delete_rows_key)
  ultimately show ?thesis
    using assms(2,3) by (simp add: destroy_def ensureAccountExists_present)
qed

text \<open>
  \<open>destroy\<close> never reads a field of a missing row. Whatever the store,
  it does not throw a \<open>TypeError\<close>: the re-read after the existence check
  always finds the row.
\<close>

theorem destroy_no_type_error: "destroy n s \<noteq> Inl (TypeError m)"
proof (cases "\<exists>r \<in> set (account s). network_id r = n")
  case True
  then have "ensureAccountExists n s = Inr ()" by (simp add: ensureAccountExists_iff)
  moreover from True have "select_rows (\<lambda>r. network_id r = n) (account s) \<noteq> []"
    by (auto simp: select_rows_def filter_empty_conv)
  ultimately show ?thesis
    by (auto simp: destroy_def split: list.splits)
next
  case False
  then show ?thesis by (simp add: destroy_def ensureAccountExists_missing)
qed

text \<open>
  C29: \<open>enable\<close> and \<open>disable\<close> switch one flag. On an existing account they
  succeed, and the store afterwards differs only in that account's
  \<open>enabled\<close> field.
\<close>

theorem enable_disable_spec:
  assumes "account_unique (account s)" and "i < length (account s)"
  shows "enable (network_id (account s ! i)) s =
      Inr (ValidResult (), s\<lparr>account := (account s)[i := (account s ! i)\<lparr>acc_enabled := True\<rparr>]\<rparr>) \<and>
    disable (network_id (account s ! i)) s =
      Inr (ValidResult (), s\<lparr>account := (account s)[i := (account s ! i)\<lparr>acc_enabled := False\<rparr>]\<rparr>)"
proof -
  have d: "distinct (map network_id (account s))"
    using assms(1) by (simp add: account_unique_def)
  have e: "ensureAccountExists (network_id (account s ! i)) s = Inr ()"
    using ensureAccountExists_present [OF nth_mem [OF assms(2)]] by simp
  have upd: "update_rows (\<lambda>r. network_id r = network_id (account s ! i)) f (account s) =
      (account s)[i := f (account s ! i)]" for f
    using d assms(2) by (rule update_rows_key_nth)
  show ?thesis
    using e assms(1) by (simp add: enable_def disable_def update_account_keep_keys upd)
qed

text \<open>
  C19: \<open>editUsername\<close> and \<open>editDomain\<close> do not check availability; the
  store refuses a clash. Renaming an account to a username another account
  holds, or giving it a domain another account holds, throws the store's
  \<open>UNIQUE_VIOLATION\<close> and writes nothing.
\<close>

theorem edit_unique_conflict:
  assumes "a \<in> set (account s)" and "b \<in> set (account s)" and "network_id b \<noteq> network_id a"
  shows "editUsername (acc_username b) (network_id a) s =
      Inl (Exception UNIQUE_VIOLATION ''duplicate key value violates unique constraint'') \<and>
    (acc_domain b = Some d \<longrightarrow> editDomain d (network_id a) s =
      Inl (Exception UNIQUE_VIOLATION ''duplicate key value violates unique constraint''))"
proof -
  have e: "ensureAccountExists (network_id a) s = Inr ()"
    using ensureAccountExists_present [OF assms(1)] by simp
  have u: "update_account (\<lambda>r. network_id r = network_id a) (\<lambda>r. r\<lparr>acc_username := acc_username b\<rparr>) s =
      Inl (Exception UNIQUE_VIOLATION ''duplicate key value violates unique constraint'')"
    using assms by (intro update_account_clash [OF assms(1,2)]) auto
  have d: "update_account (\<lambda>r. network_id r = network_id a) (\<lambda>r. r\<lparr>acc_domain := Some d\<rparr>) s =
      Inl (Exception UNIQUE_VIOLATION ''duplicate key value violates unique constraint'')"
    if "acc_domain b = Some d"
    using assms that by (intro update_account_clash [OF assms(1,2)]) auto
  show ?thesis unfolding editUsername_def editDomain_def using e u d by simp
qed

theorem edit_unique_conflict_witness:
  "\<lparr>network_id = ''n1'', acc_username = ''alice'', acc_domain = None, acc_about = [], acc_enabled = True\<rparr>
     \<in> set (account (empty_db\<lparr>account := [\<lparr>network_id = ''n1'', acc_username = ''alice'', acc_domain = None, acc_about = [], acc_enabled = True\<rparr>,
        \<lparr>network_id = ''n2'', acc_username = ''bob'', acc_domain = Some ''bob.example'', acc_about = [], acc_enabled = True\<rparr>]\<rparr>)) \<and>
   editUsername ''bob'' ''n1'' (empty_db\<lparr>account := [\<lparr>network_id = ''n1'', acc_username = ''alice'', acc_domain = None, acc_about = [], acc_enabled = True\<rparr>,
        \<lparr>network_id = ''n2'', acc_username = ''bob'', acc_domain = Some ''bob.example'', acc_about = [], acc_enabled = True\<rparr>]\<rparr>) =
     Inl (Exception UNIQUE_VIOLATION ''duplicate key value violates unique constraint'') \<and>
   editDomain ''bob.example'' ''n1'' (empty_db\<lparr>account := [\<lparr>network_id = ''n1'', acc_username = ''alice'', acc_domain = None, acc_about = [], acc_enabled = True\<rparr>,
        \<lparr>network_id = ''n2'', acc_username = ''bob'', acc_domain = Some ''bob.example'', acc_about = [], acc_enabled = True\<rparr>]\<rparr>) =
     Inl (Exception UNIQUE_VIOLATION ''duplicate key value violates unique constraint'')"
  using edit_unique_conflict [of "\<lparr>network_id = ''n1'', acc_username = ''alice'', acc_domain = None, acc_about = [], acc_enabled = True\<rparr>"
      "empty_db\<lparr>account := [\<lparr>network_id = ''n1'', acc_username = ''alice'', acc_domain = None, acc_about = [], acc_enabled = True\<rparr>,
        \<lparr>network_id = ''n2'', acc_username = ''bob'', acc_domain = Some ''bob.example'', acc_about = [], acc_enabled = True\<rparr>]\<rparr>"
      "\<lparr>network_id = ''n2'', acc_username = ''bob'', acc_domain = Some ''bob.example'', acc_about = [], acc_enabled = True\<rparr>"
      "''bob.example''"]
  by simp

end
