(* ===== verification/Registry.thy ===== *)
theory Registry
  imports Store
begin

text \<open>
  The account registry: \<open>findUser\<close> and its three lookups
  \<open>getUserByExternalId\<close>, \<open>getUserByDomain\<close>, \<open>getUserByUsername\<close>
  (src/src/user/get.ts, over the \<open>scuttlespace_user\<close> table), and
  \<open>getUsernameAvailability\<close> (src/src/account/get-status.ts, over the
  \<open>account\<close> table). The lookups only read the store. The lemmas give the
  result of each lookup, the order in which \<open>findUser\<close> tries its
  selectors, and the outcomes of the availability check.
\<close>

section \<open>Definitions\<close>

text \<open>\<open>IGetUserResult\<close> (get.ts lines 11--17).\<close>

record IGetUserResult =
  about :: string
  domain :: "string option"
  enabled :: bool
  externalId :: string
  username :: string

text \<open>\<open>IFindUserArgs\<close> (get.ts lines 19--23): three optional selectors.\<close>

record IFindUserArgs =
  args_domain :: "string option"
  args_externalId :: "string option"
  args_username :: "string option"

definition getUserByExternalId :: "string \<Rightarrow> db \<Rightarrow> IGetUserResult option service_result" where
  "getUserByExternalId ext s =
     (let rows = select_rows (\<lambda>r. network_id r = ext) (scuttlespace_user s) in
      ValidResult (case rows of
        [] \<Rightarrow> None
      | r # _ \<Rightarrow> Some \<lparr>about = acc_about r, domain = acc_domain r, enabled = acc_enabled r,
                     externalId = ext, username = acc_username r\<rparr>))"

definition getUserByDomain :: "string \<Rightarrow> db \<Rightarrow> IGetUserResult option service_result" where
  "getUserByDomain d s =
     (let rows = select_rows (\<lambda>r. acc_domain r = Some d) (scuttlespace_user s) in
      ValidResult (case rows of
        [] \<Rightarrow> None
      | r # _ \<Rightarrow> Some \<lparr>about = acc_about r, domain = acc_domain r, enabled = acc_enabled r,
                     externalId = network_id r, username = acc_username r\<rparr>))"

definition getUserByUsername :: "string \<Rightarrow> db \<Rightarrow> IGetUserResult option service_result" where
  "getUserByUsername u s =
     (let rows = select_rows (\<lambda>r. acc_username r = u) (scuttlespace_user s) in
      ValidResult (case rows of
        [] \<Rightarrow> None
      | r # _ \<Rightarrow> Some \<lparr>about = acc_about r, domain = acc_domain r, enabled = acc_enabled r,
                     externalId = network_id r, username = u\<rparr>))"

text \<open>
  \<open>findUser\<close> (get.ts lines 25--40): the first truthy selector wins, in the
  order domain, username, externalId; none truthy throws \<open>INVALID_ARGS\<close>.
\<close>

definition findUser :: "IFindUserArgs \<Rightarrow> db \<Rightarrow> exn + IGetUserResult option service_result" where
  "findUser args s =
     (if truthy (args_domain args) then Inr (getUserByDomain (the (args_domain args)) s)
      else if truthy (args_username args) then Inr (getUserByUsername (the (args_username args)) s)
      else if truthy (args_externalId args) then Inr (getUserByExternalId (the (args_externalId args)) s)
      else exception INVALID_ARGS ''One of username, domain or externalId needs to be specified.'')"

text \<open>\<open>AccountStatus\<close> and \<open>IAccountStatusCheckResult\<close> (get-status.ts lines 11--19).\<close>

datatype AccountStatus = Available | Taken | Own

record IAccountStatusCheckResult =
  status :: AccountStatus

text \<open>
  A property read \<open>row.p\<close> on a row of \<open>SELECT * FROM account\<close>. The row
  object has the columns of the schema (\<open>network_id\<close>, \<open>username\<close>,
  \<open>domain\<close>, \<open>about\<close>, \<open>enabled\<close>; a NULL domain reads \<open>null\<close>); any other
  property reads \<open>undefined\<close>. Strict equality \<open>===\<close> on these primitive
  values is equality of \<open>js_val\<close>.
\<close>

datatype js_val = JUndefined | JNull | JStr string | JBool bool

definition account_prop :: "string \<Rightarrow> account_row \<Rightarrow> js_val" where
  "account_prop p r =
     (if p = ''network_id'' then JStr (network_id r)
      else if p = ''username'' then JStr (acc_username r)
      else if p = ''domain'' then (case acc_domain r of None \<Rightarrow> JNull | Some d \<Rightarrow> JStr d)
      else if p = ''about'' then JStr (acc_about r)
      else if p = ''enabled'' then JBool (acc_enabled r)
      else JUndefined)"

text \<open>
  \<open>getUsernameAvailability\<close> (get-status.ts lines 21--46). With more than one
  row the code calls \<open>errors.singleOrNone(rows)\<close>, which throws there; its
  value would never reach the result (the \<open>Inr\<close> branch below is unreachable,
  lemma \<open>singleOrNone_many\<close>). With one row it compares
  \<open>rows[0].external_id\<close>, a property the account row does not have.
\<close>

definition getUsernameAvailability ::
  "string \<Rightarrow> string \<Rightarrow> db \<Rightarrow> exn + IAccountStatusCheckResult service_result" where
  "getUsernameAvailability u ext s =
     (let rows = select_rows (\<lambda>r. acc_username r = u) (account s) in
      if length rows = 0 then Inr (ValidResult \<lparr>status = Available\<rparr>)
      else if 1 < length rows then
        (case singleOrNone rows of Inl e \<Rightarrow> Inl e | Inr _ \<Rightarrow> Inr (ValidResult \<lparr>status = Taken\<rparr>))
      else if account_prop ''external_id'' (hd rows) = JStr ext then Inr (ValidResult \<lparr>status = Own\<rparr>)
      else Inr (ValidResult \<lparr>status = Taken\<rparr>))"

text \<open>The \<open>IGetUserResult\<close> a lookup builds from a row.\<close>

definition user_of :: "account_row \<Rightarrow> IGetUserResult" where
  "user_of r = \<lparr>about = acc_about r, domain = acc_domain r, enabled = acc_enabled r,
     externalId = network_id r, username = acc_username r\<rparr>"

text \<open>
  The rows a \<open>findUser\<close> call asks for: the column of its first truthy
  selector, in the order domain, username, externalId, equals that selector.
\<close>

definition find_matches :: "IFindUserArgs \<Rightarrow> account_row \<Rightarrow> bool" where
  "find_matches a r =
     (if truthy (args_domain a) then acc_domain r = args_domain a
      else if truthy (args_username a) then Some (acc_username r) = args_username a
      else Some (network_id r) = args_externalId a)"

section \<open>Lemmas\<close>

lemma singleOrNone_many:
  "1 < length rows \<Longrightarrow> singleOrNone rows =
     Inl (Exception DATA_INTEGRITY_VIOLATION ''Expected a single row or none.'')"
  by (simp add: singleOrNone_def)

lemma filter_Cons_hd_member:
  assumes "filter P t = r # rs"
  shows "r \<in> set t \<and> P r"
proof -
  have "r \<in> set (filter P t)" using assms by simp
  then show ?thesis by simp
qed

lemma getUsernameAvailability_total:
  assumes "account_unique (account s)"
  shows "\<exists>v. getUsernameAvailability u ext s = Inr v"
proof -
  have "length (filter (\<lambda>r. acc_username r = u) (account s)) \<le> 1"
    using assms filter_distinct_key_le1 [of acc_username "account s" u]
    by (simp add: account_unique_def)
  then show ?thesis by (auto simp: getUsernameAvailability_def select_rows_def Let_def)
qed

lemma first_row_spec:
  "((case filter P t of [] \<Rightarrow> None | r # _ \<Rightarrow> Some (g r)) = None \<longleftrightarrow> (\<forall>r \<in> set t. \<not> P r)) \<and>
   ((case filter P t of [] \<Rightarrow> None | r # _ \<Rightarrow> Some (g r)) = Some v \<longrightarrow> (\<exists>r \<in> set t. P r \<and> v = g r))"
  by (cases "filter P t") (auto simp: filter_empty_conv dest: filter_Cons_hd_member)

lemma getUserBy_first_row:
  "getUserByDomain d s =
     ValidResult (case filter (\<lambda>r. acc_domain r = Some d) (scuttlespace_user s) of [] \<Rightarrow> None | r # _ \<Rightarrow> Some (user_of r))"
  "getUserByUsername u s =
     ValidResult (case filter (\<lambda>r. acc_username r = u) (scuttlespace_user s) of [] \<Rightarrow> None | r # _ \<Rightarrow> Some (user_of r))"
  "getUserByExternalId x s =
     ValidResult (case filter (\<lambda>r. network_id r = x) (scuttlespace_user s) of [] \<Rightarrow> None | r # _ \<Rightarrow> Some (user_of r))"
  by (auto simp: getUserByDomain_def getUserByUsername_def getUserByExternalId_def select_rows_def user_of_def
      split: list.splits dest!: filter_Cons_hd_member)

lemma filter_find_matches:
  "truthy (args_domain a) \<Longrightarrow> filter (find_matches a) t = filter (\<lambda>r. acc_domain r = args_domain a) t"
  "\<not> truthy (args_domain a) \<Longrightarrow> truthy (args_username a) \<Longrightarrow> args_username a = Some u \<Longrightarrow>
     filter (find_matches a) t = filter (\<lambda>r. acc_username r = u) t"
  "\<not> truthy (args_domain a) \<Longrightarrow> \<not> truthy (args_username a) \<Longrightarrow> args_externalId a = Some x \<Longrightarrow>
     filter (find_matches a) t = filter (\<lambda>r. network_id r = x) t"
  by (auto simp: find_matches_def intro: filter_cong)

section \<open>Properties of the registry\<close>

text \<open>
  C13: the availability check never recognises the claimant. When usernames
  are unique in \<open>account\<close>, the result is \<open>TAKEN\<close> whenever some account
  holds the username, the claimant's own account included, because
  \<open>rows[0].external_id\<close> is \<open>undefined\<close> and never equals the claimant's
  id; it is \<open>AVAILABLE\<close> if no account does. \<open>OWN\<close> is never returned.
\<close>

theorem getUsernameAvailability_never_own:
  assumes "account_unique (account s)"
  shows "getUsernameAvailability u ext s =
    Inr (ValidResult \<lparr>status =
      (if \<exists>r \<in> set (account s). acc_username r = u then Taken else Available)\<rparr>)"
proof -
  let ?rows = "filter (\<lambda>r. acc_username r = u) (account s)"
  have le: "length ?rows \<le> 1"
    using assms filter_distinct_key_le1 [of acc_username "account s" u]
    by (simp add: account_unique_def)
  show ?thesis
  proof (cases ?rows)
    case Nil
    then have "\<not> (\<exists>r \<in> set (account s). acc_username r = u)"
      by (simp add: filter_empty_conv)
    with Nil show ?thesis by (simp add: getUsernameAvailability_def select_rows_def)
  next
    case (Cons r rs)
    with le have rs: "rs = []" by simp
    have "r \<in> set (account s)" "acc_username r = u"
      using filter_Cons_hd_member [OF Cons] by simp_all
    then have ex: "\<exists>r \<in> set (account s). acc_username r = u" by blast
    have rows: "select_rows (\<lambda>r. acc_username r = u) (account s) = [r]"
      using Cons rs by (simp add: select_rows_def)
    show ?thesis
      by (simp add: getUsernameAvailability_def rows ex account_prop_def)
  qed
qed

text \<open>
  C30: a duplicated username is reported, not resolved. When more than one
  account row holds the username, the check throws a data-integrity
  violation.
\<close>

theorem getUsernameAvailability_duplicate:
  assumes "1 < length (filter (\<lambda>r. acc_username r = u) (account s))"
  shows "getUsernameAvailability u ext s =
    Inl (Exception DATA_INTEGRITY_VIOLATION ''Expected a single row or none.'')"
  using assms by (auto simp: getUsernameAvailability_def select_rows_def singleOrNone_many Let_def)

text \<open>
  \<open>findUser\<close> needs a selector. When none of domain, username and
  externalId is a non-empty string, it throws \<open>INVALID_ARGS\<close>.
\<close>

theorem findUser_no_selector:
  assumes "\<not> truthy (args_domain a)" and "\<not> truthy (args_username a)"
    and "\<not> truthy (args_externalId a)"
  shows "findUser a s =
    Inl (Exception INVALID_ARGS ''One of username, domain or externalId needs to be specified.'')"
  using assms by (simp add: findUser_def exception_def)

text \<open>
  C31: \<open>findUser\<close> runs the lookup of its first truthy selector. Given any
  truthy selector, it returns no user exactly when no scuttlespace_user row
  matches the selected column (domain first, then username, then
  externalId), and a user it returns is the \<open>IGetUserResult\<close> of a row
  that matches.
\<close>

theorem findUser_selects:
  assumes "truthy (args_domain a) \<or> truthy (args_username a) \<or> truthy (args_externalId a)"
  shows "(findUser a s = Inr (ValidResult None) \<longleftrightarrow> (\<forall>r \<in> set (scuttlespace_user s). \<not> find_matches a r)) \<and>
    (findUser a s = Inr (ValidResult (Some v)) \<longrightarrow>
       (\<exists>r \<in> set (scuttlespace_user s). find_matches a r \<and> v = user_of r))"
proof (cases "truthy (args_domain a)")
  case True
  then obtain d where d: "args_domain a = Some d" by (cases "args_domain a") simp_all
  show ?thesis
    using True d first_row_spec [where P = "\<lambda>r. acc_domain r = Some d" and t = "scuttlespace_user s" and g = user_of and v = v]
    by (simp add: findUser_def getUserBy_first_row find_matches_def)
next
  case nd: False
  show ?thesis
  proof (cases "truthy (args_username a)")
    case True
    then obtain u where u: "args_username a = Some u" by (cases "args_username a") simp_all
    show ?thesis
      using nd True u first_row_spec [where P = "\<lambda>r. acc_username r = u" and t = "scuttlespace_user s" and g = user_of and v = v]
      by (simp add: findUser_def getUserBy_first_row find_matches_def)
  next
    case False
    with nd assms obtain x where x: "args_externalId a = Some x" by (cases "args_externalId a") simp_all
    show ?thesis
      using nd False x assms first_row_spec [where P = "\<lambda>r. network_id r = x" and t = "scuttlespace_user s" and g = user_of and v = v]
      by (simp add: findUser_def getUserBy_first_row find_matches_def)
  qed
qed

text \<open>
  C34: the lookups take the first of several rows. When more than one
  scuttlespace_user row matches the selected column, \<open>findUser\<close> returns the
  first of them as a valid result instead of reporting a data-integrity
  violation.
\<close>

theorem findUser_duplicates:
  assumes "truthy (args_domain a) \<or> truthy (args_username a) \<or> truthy (args_externalId a)"
    and "1 < length (filter (find_matches a) (scuttlespace_user s))"
  shows "findUser a s = Inr (ValidResult (Some (user_of (hd (filter (find_matches a) (scuttlespace_user s))))))"
proof -
  obtain r rs where c: "filter (find_matches a) (scuttlespace_user s) = r # rs"
    using assms(2) by (cases "filter (find_matches a) (scuttlespace_user s)") auto
  show ?thesis
  proof (cases "truthy (args_domain a)")
    case True
    then obtain d where d: "args_domain a = Some d" by (cases "args_domain a") simp_all
    show ?thesis using c True d filter_find_matches(1) [OF True, of "scuttlespace_user s"]
      by (simp add: findUser_def getUserBy_first_row)
  next
    case nd: False
    show ?thesis
    proof (cases "truthy (args_username a)")
      case True
      then obtain u where u: "args_username a = Some u" by (cases "args_username a") simp_all
      show ?thesis using c nd True u filter_find_matches(2) [OF nd True u, of "scuttlespace_user s"]
        by (simp add: findUser_def getUserBy_first_row)
    next
      case False
      with nd assms(1) obtain x where x: "args_externalId a = Some x" by (cases "args_externalId a") simp_all
      show ?thesis using c nd False x assms(1) filter_find_matches(3) [OF nd False x, of "scuttlespace_user s"]
        by (simp add: findUser_def getUserBy_first_row)
    qed
  qed
qed

text \<open>
  C38: the lookup by external id. When external ids are unique in
  \<open>scuttlespace_user\<close>, \<open>getUserByExternalId\<close> finds a user exactly when a row
  with that id exists, and returns that row's fields.
\<close>

theorem getUserByExternalId_spec:
  assumes "distinct (map network_id (scuttlespace_user s))"
  shows "getUserByExternalId x s = ValidResult (Some v) \<longleftrightarrow>
    (\<exists>r \<in> set (scuttlespace_user s). network_id r = x \<and> v = user_of r)"
proof
  assume "getUserByExternalId x s = ValidResult (Some v)"
  then obtain r rs where c: "filter (\<lambda>r. network_id r = x) (scuttlespace_user s) = r # rs"
    and v: "v = user_of r\<lparr>externalId := x\<rparr>"
    by (auto simp: getUserByExternalId_def select_rows_def user_of_def split: list.splits)
  have "r \<in> set (scuttlespace_user s)" "network_id r = x"
    using filter_Cons_hd_member [OF c] by simp_all
  with v show "\<exists>r \<in> set (scuttlespace_user s). network_id r = x \<and> v = user_of r"
    by (auto simp: user_of_def)
next
  assume "\<exists>r \<in> set (scuttlespace_user s). network_id r = x \<and> v = user_of r"
  then obtain r where r: "r \<in> set (scuttlespace_user s)" "network_id r = x" "v = user_of r"
    by blast
  have "filter (\<lambda>r'. network_id r' = network_id r) (scuttlespace_user s) = [r]"
    using assms r(1) by (rule filter_distinct_key_single)
  with r show "getUserByExternalId x s = ValidResult (Some v)"
    by (simp add: getUserByExternalId_def select_rows_def user_of_def)
qed

end
