(* ===== verification/Codec.thy ===== *)
theory Codec
  imports Auth_Base
begin

text \<open>
  The permission codec. A permission set is stored in one text column as a
  comma-joined list of \<open>module:permission\<close> tokens. The encoder is the
  chain \<open>.map(x => `${x.module}:${x.permission}`).sort().join(",")\<close> of
  src/src/permissions/clear.ts; the decoder lives in permissions/get.ts,
  which is not part of the sources, and is modelled from the spec (split on
  \<open>,\<close>, split each token on its first \<open>:\<close>, the empty string is the empty set,
  a token without \<open>:\<close> or with an empty part is malformed).
  The lemmas: decoding an encoding gives the set back (sorted), decoding then
  joining gives the string back, the encoding is sorted and depends only on
  the multiset of permissions, and one decode/encode pass is a normal form.
\<close>

section \<open>Definitions\<close>

text \<open>\<open>{module, permission}\<close>, the elements of \<open>maybePermissions.permissions\<close>.\<close>

record IPermission =
  module :: string
  permission :: string

text \<open>\<open>`${x.module}:${x.permission}`\<close>\<close>

definition perm_token :: "IPermission \<Rightarrow> string" where
  "perm_token x = module x @ CHR '':'' # permission x"

text \<open>\<open>.map(perm_token).sort().join(",")\<close>\<close>

definition encode :: "IPermission list \<Rightarrow> string" where
  "encode ps = join CHR '','' (sort (map perm_token ps))"

text \<open>One token, split on its first \<open>:\<close>.\<close>

definition parse_token :: "string \<Rightarrow> exn + IPermission" where
  "parse_token t =
     (let m = takeWhile (\<lambda>x. x \<noteq> CHR '':'') t; r = dropWhile (\<lambda>x. x \<noteq> CHR '':'') t in
      if r = [] \<or> m = [] \<or> tl r = []
      then Inl (Exception MALFORMED_PERMISSION_TOKEN (''Malformed permission token '' @ t))
      else Inr \<lparr>module = m, permission = tl r\<rparr>)"

definition decode :: "string \<Rightarrow> exn + IPermission list" where
  "decode s = (if s = [] then Inr [] else traverse parse_token (split_on CHR '','' s))"

text \<open>A permission whose token survives the round trip.\<close>

definition wf_perm :: "IPermission \<Rightarrow> bool" where
  "wf_perm p \<longleftrightarrow> module p \<noteq> [] \<and> permission p \<noteq> [] \<and>
     CHR '':'' \<notin> set (module p) \<and> CHR '','' \<notin> set (module p) \<and> CHR '','' \<notin> set (permission p)"

section \<open>Tokens\<close>

lemma parse_token_perm_token [simp]: "wf_perm p \<Longrightarrow> parse_token (perm_token p) = Inr p"
  by (simp add: wf_perm_def perm_token_def parse_token_def takeWhile_append dropWhile_append)

lemma parse_token_Inr:
  assumes "parse_token t = Inr p"
  shows "perm_token p = t" and "CHR '','' \<notin> set t \<Longrightarrow> wf_perm p"
proof -
  let ?m = "takeWhile (\<lambda>x. x \<noteq> CHR '':'') t" and ?r = "dropWhile (\<lambda>x. x \<noteq> CHR '':'') t"
  from assms have ne: "?r \<noteq> []" "?m \<noteq> []" "tl ?r \<noteq> []" and p: "p = \<lparr>module = ?m, permission = tl ?r\<rparr>"
    by (auto simp: parse_token_def Let_def split: if_splits)
  have hd: "hd ?r = CHR '':''"
    using ne(1) hd_dropWhile by blast
  have t: "t = ?m @ ?r" by simp
  also have "\<dots> = ?m @ CHR '':'' # tl ?r"
    using ne(1) hd by (cases ?r) auto
  finally have tt: "t = ?m @ CHR '':'' # tl ?r" .
  then show "perm_token p = t" by (simp add: p perm_token_def)
  show "wf_perm p" if "CHR '','' \<notin> set t"
  proof -
    have "CHR '':'' \<notin> set ?m" by (auto dest: set_takeWhileD)
    with that ne tt show ?thesis unfolding wf_perm_def p by (metis Un_iff set_append list.set_intros(2) IPermission.select_convs)
  qed
qed

lemma perm_token_inj: "wf_perm p \<Longrightarrow> wf_perm q \<Longrightarrow> perm_token p = perm_token q \<Longrightarrow> p = q"
  by (metis parse_token_perm_token sum.inject(2))

lemma comma_notin_perm_token: "wf_perm p \<Longrightarrow> CHR '','' \<notin> set (perm_token p)"
  by (simp add: wf_perm_def perm_token_def)

lemma perm_token_not_Nil [simp]: "perm_token p \<noteq> []"
  by (simp add: perm_token_def)

lemma split_on_free: "w \<in> set (split_on c s) \<Longrightarrow> c \<notin> set w"
proof (induction s arbitrary: w)
  case (Cons x xs)
  then show ?case
    by (cases "split_on c xs") (auto simp: Let_def split: if_splits)
qed simp

lemma split_on_set_subset: "w \<in> set (split_on c s) \<Longrightarrow> set w \<subseteq> set s"
proof (induction s arbitrary: w)
  case (Cons x xs)
  then show ?case
    by (cases "split_on c xs") (fastforce simp: Let_def split: if_splits)+
qed simp

section \<open>Round trips\<close>

lemma join_tokens_not_Nil:
  "xs \<noteq> [] \<Longrightarrow> join c (map perm_token xs) \<noteq> []"
  by (cases xs rule: remdups_adj.cases) (auto simp: join_Nil_iff)

lemma encode_Nil_iff: "encode ps = [] \<longleftrightarrow> ps = []"
proof -
  have "encode ps = join CHR '','' (map perm_token (sort_key perm_token ps))"
    by (simp add: encode_def sort_map_sort_key)
  moreover have "sort_key perm_token ps = [] \<longleftrightarrow> ps = []"
    by (metis length_sort length_0_conv)
  ultimately show ?thesis using join_tokens_not_Nil [of "sort_key perm_token ps" "CHR '',''"]
    by (auto simp: encode_def)
qed

lemma decode_encode_sorted:
  assumes "\<forall>p \<in> set ps. wf_perm p"
  shows "decode (encode ps) = Inr (sort_key perm_token ps)"
proof (cases "ps = []")
  case True
  then show ?thesis by (simp add: encode_def decode_def)
next
  case False
  let ?qs = "sort_key perm_token ps"
  have enc: "encode ps = join CHR '','' (map perm_token ?qs)"
    by (simp add: encode_def sort_map_sort_key)
  have free: "\<forall>w \<in> set (map perm_token ?qs). CHR '','' \<notin> set w"
    using assms comma_notin_perm_token by auto
  have "map perm_token ?qs \<noteq> []"
    using False by (metis length_sort length_0_conv length_map)
  then have "split_on CHR '','' (encode ps) = map perm_token ?qs"
    using free unfolding enc by (rule split_on_join)
  moreover have "traverse parse_token (map perm_token ?qs) = Inr ?qs"
    using assms by (simp add: traverse_map_inverse)
  ultimately show ?thesis
    using False by (simp add: decode_def encode_Nil_iff)
qed

lemma decode_join:
  assumes "decode s = Inr ps"
  shows "join CHR '','' (map perm_token ps) = s"
proof (cases "s = []")
  case True
  with assms show ?thesis by (simp add: decode_def)
next
  case False
  with assms have "traverse parse_token (split_on CHR '','' s) = Inr ps"
    by (simp add: decode_def)
  then have "map perm_token ps = split_on CHR '','' s"
    by (rule traverse_Inr_map_eq) (rule parse_token_Inr(1))
  then show ?thesis by simp
qed

lemma decode_wf:
  assumes "decode s = Inr ps"
  shows "\<forall>p \<in> set ps. wf_perm p"
proof (cases "s = []")
  case True
  with assms show ?thesis by (simp add: decode_def)
next
  case False
  with assms have tr: "traverse parse_token (split_on CHR '','' s) = Inr ps"
    by (simp add: decode_def)
  show ?thesis
  proof
    fix p assume "p \<in> set ps"
    with tr obtain w where "w \<in> set (split_on CHR '','' s)" and "parse_token w = Inr p"
      using traverse_Inr_set by metis
    then show "wf_perm p" using parse_token_Inr(2) split_on_free by metis
  qed
qed

lemma encode_mset_eq: "mset ps = mset qs \<Longrightarrow> encode ps = encode qs"
proof -
  assume "mset ps = mset qs"
  then have "mset (map perm_token ps) = mset (map perm_token qs)" by simp
  then have "sort (map perm_token ps) = sort (map perm_token qs)"
    by (metis properties_for_sort mset_sort sorted_sort)
  then show ?thesis by (simp add: encode_def)
qed

section \<open>Properties of the codec\<close>

text \<open>
  C24: the encoding is canonical. Two permission lists with the same elements,
  in any order and with the same repetitions, are stored as the same string.
\<close>

theorem encode_canonical:
  assumes "mset ps = mset qs"
  shows "encode ps = encode qs"
  using assms by (rule encode_mset_eq)

text \<open>
  The stored tokens are in ascending order. Splitting an encoding on
  commas gives a sorted list of tokens.
\<close>

theorem encode_sorted:
  assumes "\<forall>p \<in> set ps. wf_perm p"
  shows "sorted (split_on CHR '','' (encode ps))"
proof (cases "ps = []")
  case True
  then show ?thesis by (simp add: encode_def)
next
  case False
  have "map perm_token (sort_key perm_token ps) \<noteq> []"
    using False by (metis length_sort length_0_conv length_map)
  moreover have "\<forall>w \<in> set (map perm_token (sort_key perm_token ps)). CHR '','' \<notin> set w"
    using assms comma_notin_perm_token by auto
  ultimately have "split_on CHR '','' (encode ps) = sort (map perm_token ps)"
    by (simp add: encode_def sort_map_sort_key)
  then show ?thesis by simp
qed

text \<open>
  C14: decoding an encoding gives the permissions back, as a sorted permutation
  of the list that was encoded.
\<close>

theorem decode_encode:
  assumes "\<forall>p \<in> set ps. wf_perm p"
  shows "\<exists>qs. decode (encode ps) = Inr qs \<and> mset qs = mset ps \<and>
           sorted (map perm_token qs)"
  using decode_encode_sorted [OF assms] by (simp add: sorted_sort_key)

text \<open>
  Decoding loses nothing. A string that decodes is the comma-join of the
  tokens of what it decodes to.
\<close>

theorem decode_join_roundtrip:
  assumes "decode s = Inr ps"
  shows "join CHR '','' (map perm_token ps) = s"
  using assms by (rule decode_join)

text \<open>
  One decode/encode pass is a normal form. Re-decoding the encoding of a
  decoded string gives the same multiset, and encoding that again gives the
  same string.
\<close>

theorem encode_normal_form:
  assumes "decode s = Inr ps"
  shows "\<exists>qs. decode (encode ps) = Inr qs \<and> mset qs = mset ps \<and>
           encode qs = encode ps"
proof -
  have wf: "\<forall>p \<in> set ps. wf_perm p" using assms by (rule decode_wf)
  show ?thesis
    using decode_encode_sorted [OF wf] encode_mset_eq [of "sort_key perm_token ps" ps] by simp
qed

text \<open>
  A token without a colon is rejected. A non-empty string without any
  colon does not decode; the decoder reports a malformed token.
\<close>

theorem decode_malformed:
  assumes "s \<noteq> []" and "CHR '':'' \<notin> set s"
  shows "\<exists>m. decode s = Inl (Exception MALFORMED_PERMISSION_TOKEN m)"
proof -
  obtain w ws where sp: "split_on CHR '','' s = w # ws"
    by (cases "split_on CHR '','' s") auto
  have "w \<in> set (split_on CHR '','' s)" by (simp add: sp)
  then have "set w \<subseteq> set s"
    by (metis join_split_on split_on_set_subset)
  then have "dropWhile (\<lambda>x. x \<noteq> CHR '':'') w = []"
    using assms(2) by (auto simp: dropWhile_eq_Nil_conv)
  then show ?thesis
    using assms(1) by (simp add: decode_def sp parse_token_def)
qed

section \<open>Witnesses\<close>

theorem encode_canonical_witness:
  "mset [\<lparr>module = ''docs'', permission = ''write''\<rparr>, \<lparr>module = ''blog'', permission = ''read''\<rparr>] =
     mset [\<lparr>module = ''blog'', permission = ''read''\<rparr>, \<lparr>module = ''docs'', permission = ''write''\<rparr>] \<and>
   encode [\<lparr>module = ''docs'', permission = ''write''\<rparr>, \<lparr>module = ''blog'', permission = ''read''\<rparr>] =
     encode [\<lparr>module = ''blog'', permission = ''read''\<rparr>, \<lparr>module = ''docs'', permission = ''write''\<rparr>]"
  using encode_canonical [of "[\<lparr>module = ''docs'', permission = ''write''\<rparr>, \<lparr>module = ''blog'', permission = ''read''\<rparr>]"
      "[\<lparr>module = ''blog'', permission = ''read''\<rparr>, \<lparr>module = ''docs'', permission = ''write''\<rparr>]"]
  by simp

theorem encode_sorted_witness:
  "list_all wf_perm [\<lparr>module = ''docs'', permission = ''write''\<rparr>, \<lparr>module = ''blog'', permission = ''read''\<rparr>] \<and>
   sorted (split_on CHR '','' (encode [\<lparr>module = ''docs'', permission = ''write''\<rparr>,
     \<lparr>module = ''blog'', permission = ''read''\<rparr>]))"
  using encode_sorted [of "[\<lparr>module = ''docs'', permission = ''write''\<rparr>, \<lparr>module = ''blog'', permission = ''read''\<rparr>]"]
  by (simp add: wf_perm_def)

theorem decode_encode_witness:
  "list_all wf_perm [\<lparr>module = ''docs'', permission = ''write''\<rparr>] \<and>
   decode (encode [\<lparr>module = ''docs'', permission = ''write''\<rparr>]) =
     Inr [\<lparr>module = ''docs'', permission = ''write''\<rparr>]"
proof -
  have wf: "\<forall>p \<in> set [\<lparr>module = ''docs'', permission = ''write''\<rparr>]. wf_perm p"
    by (simp add: wf_perm_def)
  obtain qs where "decode (encode [\<lparr>module = ''docs'', permission = ''write''\<rparr>]) = Inr qs"
    and "mset qs = mset [\<lparr>module = ''docs'', permission = ''write''\<rparr>]"
    using decode_encode [OF wf] by blast
  with wf show ?thesis by simp
qed

theorem decode_join_roundtrip_witness:
  "decode ''docs:write,blog:read'' =
     Inr [\<lparr>module = ''docs'', permission = ''write''\<rparr>, \<lparr>module = ''blog'', permission = ''read''\<rparr>] \<and>
   join CHR '','' (map perm_token [\<lparr>module = ''docs'', permission = ''write''\<rparr>,
     \<lparr>module = ''blog'', permission = ''read''\<rparr>]) = ''docs:write,blog:read''"
proof -
  have d: "decode ''docs:write,blog:read'' =
     Inr [\<lparr>module = ''docs'', permission = ''write''\<rparr>, \<lparr>module = ''blog'', permission = ''read''\<rparr>]"
    by (simp add: decode_def parse_token_def)
  show ?thesis using d decode_join_roundtrip [OF d] by simp
qed

theorem encode_normal_form_witness:
  "decode ''docs:write,blog:read'' =
     Inr [\<lparr>module = ''docs'', permission = ''write''\<rparr>, \<lparr>module = ''blog'', permission = ''read''\<rparr>] \<and>
   (\<exists>qs. decode ''blog:read,docs:write'' = Inr qs \<and>
     encode qs = ''blog:read,docs:write'')"
proof -
  have d: "decode ''docs:write,blog:read'' =
     Inr [\<lparr>module = ''docs'', permission = ''write''\<rparr>, \<lparr>module = ''blog'', permission = ''read''\<rparr>]"
    by (simp add: decode_def parse_token_def)
  have e: "encode [\<lparr>module = ''docs'', permission = ''write''\<rparr>, \<lparr>module = ''blog'', permission = ''read''\<rparr>] =
     ''blog:read,docs:write''"
    by (simp add: encode_def perm_token_def)
  show ?thesis using d encode_normal_form [OF d] by (simp only: e) blast
qed

theorem decode_malformed_witness:
  "''docs'' \<noteq> [] \<and> CHR '':'' \<notin> set ''docs'' \<and>
   (\<exists>m. decode ''docs'' = Inl (Exception MALFORMED_PERMISSION_TOKEN m))"
  using decode_malformed [of "''docs''"] by simp

end
