(* ===== verification/Permissions.thy ===== *)
theory Permissions
  imports Registry Codec
begin

text \<open>
  The permission store. \<open>addPermissions\<close> (src/src/add-permissions.ts) checks
  that the caller owns the username in \<open>account\<close> and then inserts or
  overwrites the row of \<open>account_permissions\<close> keyed by (username, assignee).
  \<open>clearPermissions\<close> (src/src/permissions/clear.ts) resolves the assigner in
  \<open>scuttlespace_user\<close> through \<open>findUser\<close>, reads the row of
  \<open>user_permissions\<close> keyed by (assignee, assigner) through
  \<open>getPermissionsForUser\<close>, drops one module's entries and writes the
  re-encoded remainder back. \<open>getPermissionsForUser\<close> lives in
  permissions/get.ts, which is not part of the sources; it is modelled from
  the spec (a plain read, decoded).
  The lemmas: the result of each operation on each branch, the frame of each
  (which tables it leaves alone), that \<open>addPermissions\<close> keeps its key unique
  by itself, and that \<open>clearPermissions\<close> refines "remove one module from the
  permission set".
\<close>

section \<open>Definitions\<close>

text \<open>
  \<open>addPermissions\<close> (add-permissions.ts lines 7--84). The new value of the
  column is \<open>permissions.join(",")\<close> in both the insert and the update branch:
  the caller's list replaces what was stored.
\<close>

definition addPermissions :: "string \<Rightarrow> string \<Rightarrow> string \<Rightarrow> string list \<Rightarrow> db \<Rightarrow> exn + db" where
  "addPermissions uname assignee caller perms s =
     (let accountRows = select_rows (\<lambda>r. acc_username r = uname \<and> network_id r = caller) (account s) in
      if length accountRows = 1 then
        (let permissionsRows =
               select_rows (\<lambda>r. ap_username r = uname \<and> ap_network_id r = assignee)
                 (account_permissions s);
             joined = join CHR '','' perms in
         if length permissionsRows = 0 then
           Inr (s\<lparr>account_permissions :=
             insert_row \<lparr>ap_network_id = assignee, ap_permissions = joined, ap_username = uname\<rparr>
               (account_permissions s)\<rparr>)
         else if length permissionsRows = 1 then
           Inr (s\<lparr>account_permissions :=
             update_rows (\<lambda>r. ap_username r = uname \<and> ap_network_id r = assignee)
               (\<lambda>r. r\<lparr>ap_permissions := joined\<rparr>) (account_permissions s)\<rparr>)
         else sbind (singleOrNone permissionsRows) (\<lambda>_. Inr s))
      else if length accountRows = 0 then
        exception NO_MANAGE_PERMISSION
          (caller @ '' cannot manage permissions for username '' @ uname @ ''.'')
      else sbind (singleOrNone accountRows) (\<lambda>_. Inr s))"

text \<open>The value \<open>getPermissionsForUser\<close> returns: \<open>{permissions}\<close>.\<close>

record IPermissionsResult =
  permissions :: "IPermission list"

text \<open>
  \<open>getPermissionsForUser(assignee, assigner)\<close> (permissions/get.ts, from the
  spec): the row for the pair, decoded; no row is \<open>undefined\<close>, two rows a
  data-integrity violation, an undecodable column a malformed token.
\<close>

definition getPermissionsForUser ::
  "string \<Rightarrow> string \<Rightarrow> db \<Rightarrow> exn + IPermissionsResult option service_result" where
  "getPermissionsForUser assignee assigner s =
     (let rows = select_rows
        (\<lambda>r. up_assignee_external_id r = assignee \<and> up_assigner_external_id r = assigner)
        (user_permissions s) in
      sbind (singleOrNone rows) (\<lambda>row.
        case row of
          None \<Rightarrow> Inr (ValidResult None)
        | Some r \<Rightarrow> sbind (Codec.decode (up_permissions r)) (\<lambda>ps.
            Inr (ValidResult (Some \<lparr>permissions = ps\<rparr>)))))"

text \<open>The value \<open>clearPermissions\<close> returns: \<open>{username}\<close>.\<close>

record IClearResult =
  cleared_username :: string

text \<open>\<open>clearPermissions\<close> (clear.ts lines 14--68).\<close>

definition clearPermissions ::
  "string \<Rightarrow> string \<Rightarrow> string \<Rightarrow> db \<Rightarrow> exn + IClearResult service_result \<times> db" where
  "clearPermissions md assignee assigner s =
     sbind (parseServiceResult
       (findUser \<lparr>args_domain = None, args_externalId = Some assigner, args_username = None\<rparr> s))
     (\<lambda>maybeUser.
      case maybeUser of
        None \<Rightarrow> Inr (ErrorResult NO_ACCOUNT
                  (assigner @ '' does not have an user. Create an user first.''), s)
      | Some user \<Rightarrow>
          sbind (parseServiceResult (getPermissionsForUser assignee assigner s))
          (\<lambda>maybePermissions.
           case maybePermissions of
             None \<Rightarrow> Inr (ValidResult \<lparr>cleared_username = username user\<rparr>, s)
           | Some p \<Rightarrow>
               (let newPermissions = Codec.encode (filter (\<lambda>x. module x \<noteq> md) (permissions p)) in
                Inr (ValidResult \<lparr>cleared_username = username user\<rparr>,
                     s\<lparr>user_permissions :=
                       update_rows
                         (\<lambda>r. up_assignee_external_id r = assignee \<and> up_assigner_external_id r = assigner)
                         (\<lambda>r. r\<lparr>up_permissions := newPermissions\<rparr>) (user_permissions s)\<rparr>))))"

section \<open>Lemmas\<close>

abbreviation ap_key :: "ap_row \<Rightarrow> string \<times> string" where
  "ap_key r \<equiv> (ap_username r, ap_network_id r)"

abbreviation up_key :: "up_row \<Rightarrow> string \<times> string" where
  "up_key r \<equiv> (up_assignee_external_id r, up_assigner_external_id r)"

lemma caller_rows_single:
  assumes "account_unique (account s)" and "a \<in> set (account s)"
  shows "select_rows (\<lambda>r. acc_username r = acc_username a \<and> network_id r = network_id a) (account s) = [a]"
proof -
  have "filter (\<lambda>r. network_id r = network_id a) (account s) = [a]"
    using assms by (simp add: account_unique_def filter_distinct_key_single)
  then have "filter (\<lambda>r. acc_username r = acc_username a) (filter (\<lambda>r. network_id r = network_id a) (account s)) = [a]"
    by simp
  then show ?thesis by (simp add: select_rows_def conj_commute)
qed

lemma caller_rows_none:
  "\<forall>a \<in> set (account s). \<not> (acc_username a = uname \<and> network_id a = caller) \<Longrightarrow>
   select_rows (\<lambda>r. acc_username r = uname \<and> network_id r = caller) (account s) = []"
  by (simp add: select_rows_def filter_empty_conv)

lemma addPermissions_cases:
  assumes "addPermissions uname assignee caller perms s = Inr s'"
  shows "s' = s \<or>
    ((\<forall>r \<in> set (account_permissions s). ap_key r \<noteq> (uname, assignee)) \<and>
     s' = s\<lparr>account_permissions := account_permissions s @
       [\<lparr>ap_network_id = assignee, ap_permissions = join CHR '','' perms, ap_username = uname\<rparr>]\<rparr>) \<or>
    s' = s\<lparr>account_permissions := update_rows (\<lambda>r. ap_key r = (uname, assignee))
       (\<lambda>r. r\<lparr>ap_permissions := join CHR '','' perms\<rparr>) (account_permissions s)\<rparr>"
  using assms
  by (auto simp: addPermissions_def Let_def select_rows_def insert_row_def exception_def
      filter_empty_conv sbind_eq_Inr split: if_splits)

lemma findUser_externalId:
  assumes "x \<noteq> []"
  shows "parseServiceResult (findUser \<lparr>args_domain = None, args_externalId = Some x, args_username = None\<rparr> s) =
    Inr (case filter (\<lambda>r. network_id r = x) (scuttlespace_user s) of
           [] \<Rightarrow> None | r # _ \<Rightarrow> Some (user_of r))"
proof (cases "filter (\<lambda>r. network_id r = x) (scuttlespace_user s)")
  case Nil
  with assms show ?thesis by (simp add: findUser_def getUserByExternalId_def select_rows_def)
next
  case (Cons r rs)
  then have "network_id r = x" using filter_Cons_hd_member [OF Cons] by simp
  with Cons assms show ?thesis
    by (simp add: findUser_def getUserByExternalId_def select_rows_def user_of_def)
qed

lemma findUser_externalId_found:
  assumes "x \<noteq> []" and "distinct (map network_id (scuttlespace_user s))"
    and "u \<in> set (scuttlespace_user s)" and "network_id u = x"
  shows "parseServiceResult (findUser \<lparr>args_domain = None, args_externalId = Some x, args_username = None\<rparr> s) =
    Inr (Some (user_of u))"
  using findUser_externalId [OF assms(1)] filter_distinct_key_single [OF assms(2,3)] assms(4) by simp

lemma getPermissionsForUser_no_row:
  "\<forall>r \<in> set (user_permissions s). up_key r \<noteq> (a, b) \<Longrightarrow>
   getPermissionsForUser a b s = Inr (ValidResult None)"
  by (auto simp: getPermissionsForUser_def select_rows_def singleOrNone_def filter_empty_conv)

lemma up_rows_single:
  assumes "distinct (map up_key (user_permissions s))" and "i < length (user_permissions s)"
    and "up_key (user_permissions s ! i) = (a, b)"
  shows "filter (\<lambda>r. up_assignee_external_id r = a \<and> up_assigner_external_id r = b) (user_permissions s) =
      [user_permissions s ! i]"
    and "update_rows (\<lambda>r. up_assignee_external_id r = a \<and> up_assigner_external_id r = b) f (user_permissions s) =
      (user_permissions s)[i := f (user_permissions s ! i)]"
  using filter_distinct_key_single [OF assms(1) nth_mem [OF assms(2)]]
    update_rows_key_nth [OF assms(1,2), of f] assms(3) by simp_all

lemma getPermissionsForUser_row:
  assumes "distinct (map up_key (user_permissions s))" and "i < length (user_permissions s)"
    and "up_key (user_permissions s ! i) = (a, b)"
  shows "getPermissionsForUser a b s =
    sbind (Codec.decode (up_permissions (user_permissions s ! i)))
      (\<lambda>ps. Inr (ValidResult (Some \<lparr>permissions = ps\<rparr>)))"
  using up_rows_single(1) [OF assms] by (simp add: getPermissionsForUser_def select_rows_def singleOrNone_def)

lemma clearPermissions_user:
  assumes "assigner \<noteq> []" and "distinct (map network_id (scuttlespace_user s))"
    and "u \<in> set (scuttlespace_user s)" and "network_id u = assigner"
  shows "clearPermissions md assignee assigner s =
    sbind (parseServiceResult (getPermissionsForUser assignee assigner s)) (\<lambda>mp.
      case mp of
        None \<Rightarrow> Inr (ValidResult \<lparr>cleared_username = acc_username u\<rparr>, s)
      | Some p \<Rightarrow> Inr (ValidResult \<lparr>cleared_username = acc_username u\<rparr>,
          s\<lparr>user_permissions := update_rows
             (\<lambda>r. up_assignee_external_id r = assignee \<and> up_assigner_external_id r = assigner)
             (\<lambda>r. r\<lparr>up_permissions := Codec.encode (filter (\<lambda>x. module x \<noteq> md) (permissions p))\<rparr>)
             (user_permissions s)\<rparr>))"
  using findUser_externalId_found [OF assms] by (simp add: clearPermissions_def user_of_def)

lemma clearPermissions_cases:
  assumes "clearPermissions md assignee assigner s = Inr (res, s')"
  shows "s' = s \<or>
    (\<exists>user p. parseServiceResult (findUser \<lparr>args_domain = None, args_externalId = Some assigner,
        args_username = None\<rparr> s) = Inr (Some user) \<and>
      getPermissionsForUser assignee assigner s = Inr (ValidResult (Some p)) \<and>
      res = ValidResult \<lparr>cleared_username = username user\<rparr> \<and>
      s' = s\<lparr>user_permissions := update_rows
             (\<lambda>r. up_assignee_external_id r = assignee \<and> up_assigner_external_id r = assigner)
             (\<lambda>r. r\<lparr>up_permissions := Codec.encode (filter (\<lambda>x. module x \<noteq> md) (permissions p))\<rparr>)
             (user_permissions s)\<rparr>)"
proof -
  obtain mu where mu: "parseServiceResult
      (findUser \<lparr>args_domain = None, args_externalId = Some assigner, args_username = None\<rparr> s) = Inr mu"
    and c: "(case mu of
        None \<Rightarrow> Inr (ErrorResult NO_ACCOUNT (assigner @ '' does not have an user. Create an user first.''), s)
      | Some user \<Rightarrow>
          sbind (parseServiceResult (getPermissionsForUser assignee assigner s))
          (\<lambda>mp. case mp of
             None \<Rightarrow> Inr (ValidResult \<lparr>cleared_username = username user\<rparr>, s)
           | Some p \<Rightarrow>
               (let newPermissions = Codec.encode (filter (\<lambda>x. module x \<noteq> md) (permissions p)) in
                Inr (ValidResult \<lparr>cleared_username = username user\<rparr>,
                     s\<lparr>user_permissions :=
                       update_rows
                         (\<lambda>r. up_assignee_external_id r = assignee \<and> up_assigner_external_id r = assigner)
                         (\<lambda>r. r\<lparr>up_permissions := newPermissions\<rparr>) (user_permissions s)\<rparr>)))) =
       Inr (res, s')"
    using assms by (auto simp: clearPermissions_def sbind_eq_Inr)
  then show ?thesis using mu
    by (cases "getPermissionsForUser assignee assigner s" rule: parseServiceResult.cases)
       (auto simp: sbind_eq_Inr Let_def split: option.splits)
qed

lemma findUser_user_permissions [simp]:
  "findUser a (s\<lparr>user_permissions := x\<rparr>) = findUser a s"
  by (simp add: findUser_def getUserByExternalId_def getUserByDomain_def getUserByUsername_def)

lemma getPermissionsForUser_Some:
  assumes "getPermissionsForUser a b s = Inr (ValidResult (Some p))"
  shows "\<exists>r. filter (\<lambda>r. up_assignee_external_id r = a \<and> up_assigner_external_id r = b)
      (user_permissions s) = [r] \<and> Codec.decode (up_permissions r) = Inr (permissions p)"
proof (cases "filter (\<lambda>r. up_assignee_external_id r = a \<and> up_assigner_external_id r = b)
    (user_permissions s)")
  case Nil
  with assms show ?thesis by (simp add: getPermissionsForUser_def select_rows_def singleOrNone_def)
next
  case (Cons r rs)
  show ?thesis
  proof (cases rs)
    case Nil
    with Cons assms show ?thesis
      by (auto simp: getPermissionsForUser_def select_rows_def singleOrNone_def sbind_eq_Inr)
  next
    case (Cons r' rs')
    with \<open>filter _ _ = r # rs\<close> assms show ?thesis
      by (simp add: getPermissionsForUser_def select_rows_def singleOrNone_def)
  qed
qed

lemma update_rows_twice:
  "(\<And>r. P (g r) = P r) \<Longrightarrow> update_rows P f (update_rows P g t) = update_rows P (f \<circ> g) t"
  by (induction t) (auto simp: update_rows_def)

lemma clear_filter_sort_key:
  "mset (filter P (sort_key f (filter P xs))) = mset (filter P xs)"
  by (simp add: filter_mset_eq_conv)

lemma addPermissions_no_integrity:
  assumes "account_unique (account s)" and "distinct (map ap_key (account_permissions s))"
  shows "addPermissions uname assignee caller perms s \<noteq> Inl (Exception DATA_INTEGRITY_VIOLATION m)"
proof -
  have a: "length (filter (\<lambda>r. acc_username r = uname \<and> network_id r = caller) (account s)) \<le> 1"
  proof -
    have "length (filter (\<lambda>r. acc_username r = uname) (filter (\<lambda>r. network_id r = caller) (account s))) \<le>
        length (filter (\<lambda>r. network_id r = caller) (account s))"
      by (rule length_filter_le)
    moreover have "length (filter (\<lambda>r. network_id r = caller) (account s)) \<le> 1"
      using assms(1) filter_distinct_key_le1 [of network_id "account s" caller]
      by (simp add: account_unique_def)
    ultimately show ?thesis by (simp add: conj_commute)
  qed
  have p: "length (filter (\<lambda>r. ap_username r = uname \<and> ap_network_id r = assignee)
      (account_permissions s)) \<le> 1"
    using filter_distinct_key_le1 [OF assms(2), of "(uname, assignee)"] by simp
  show ?thesis
    using a p by (auto simp: addPermissions_def select_rows_def Let_def exception_def singleOrNone_def)
qed

lemma getPermissionsForUser_total:
  assumes "distinct (map up_key (user_permissions s))"
    and "\<forall>r \<in> set (user_permissions s). \<exists>ps. Codec.decode (up_permissions r) = Inr ps"
  shows "\<exists>v. getPermissionsForUser a b s = Inr (ValidResult v)"
proof (cases "\<exists>i < length (user_permissions s). up_key (user_permissions s ! i) = (a, b)")
  case True
  then obtain i where i: "i < length (user_permissions s)" "up_key (user_permissions s ! i) = (a, b)"
    by blast
  moreover obtain ps where "Codec.decode (up_permissions (user_permissions s ! i)) = Inr ps"
    using assms(2) nth_mem [OF i(1)] by blast
  ultimately show ?thesis using getPermissionsForUser_row [OF assms(1) i] by simp
next
  case False
  then have "\<forall>r \<in> set (user_permissions s). up_key r \<noteq> (a, b)"
    by (metis in_set_conv_nth)
  then show ?thesis using getPermissionsForUser_no_row by blast
qed

lemma clearPermissions_total:
  assumes "assigner \<noteq> []"
    and "distinct (map up_key (user_permissions s))"
    and "\<forall>r \<in> set (user_permissions s). \<exists>ps. Codec.decode (up_permissions r) = Inr ps"
  shows "\<exists>res s'. clearPermissions md assignee assigner s = Inr (res, s')"
proof -
  obtain v where v: "getPermissionsForUser assignee assigner s = Inr (ValidResult v)"
    using getPermissionsForUser_total [OF assms(2,3)] by blast
  show ?thesis
    using findUser_externalId [OF assms(1), of s] v
    by (auto simp: clearPermissions_def Let_def split: list.splits option.splits)
qed

lemma getPermissionsForUser_after_clear:
  assumes g: "getPermissionsForUser a b s = Inr (ValidResult (Some p))"
  shows "getPermissionsForUser a b (s\<lparr>user_permissions := update_rows
      (\<lambda>r. up_assignee_external_id r = a \<and> up_assigner_external_id r = b)
      (\<lambda>r. r\<lparr>up_permissions := encode (filter (\<lambda>x. module x \<noteq> md) (permissions p))\<rparr>)
      (user_permissions s)\<rparr>) =
    Inr (ValidResult (Some \<lparr>permissions = sort_key perm_token (filter (\<lambda>x. module x \<noteq> md) (permissions p))\<rparr>))"
proof -
  let ?Q = "\<lambda>r. up_assignee_external_id r = a \<and> up_assigner_external_id r = b"
  let ?ps = "filter (\<lambda>x. module x \<noteq> md) (permissions p)"
  let ?f = "\<lambda>r. r\<lparr>up_permissions := encode ?ps\<rparr>"
  obtain r where rows: "filter ?Q (user_permissions s) = [r]"
    and dec: "decode (up_permissions r) = Inr (permissions p)"
    using getPermissionsForUser_Some [OF g] by blast
  have wf: "\<forall>x \<in> set ?ps. wf_perm x" using decode_wf [OF dec] by simp
  have rq: "?Q r" using filter_Cons_hd_member [OF rows] by simp
  have "filter ?Q (update_rows ?Q ?f (user_permissions s)) = update_rows ?Q ?f [r]"
    using filter_update_rows_keep [of ?Q ?f "user_permissions s" ?Q] rows by simp
  with rq have "filter ?Q (update_rows ?Q ?f (user_permissions s)) = [?f r]"
    by (simp add: update_rows_def)
  then show ?thesis
    using decode_encode_sorted [OF wf]
    by (simp add: getPermissionsForUser_def select_rows_def singleOrNone_def)
qed

lemma getPermissionsForUser_tables:
  "user_permissions s' = user_permissions s \<Longrightarrow>
   getPermissionsForUser a b s' = getPermissionsForUser a b s"
  by (simp add: getPermissionsForUser_def)

lemma clearPermissions_decodes:
  assumes "\<forall>r \<in> set (user_permissions s). \<exists>ps. Codec.decode (up_permissions r) = Inr ps"
    and "clearPermissions md a b s = Inr (res, s')"
  shows "\<forall>r \<in> set (user_permissions s'). \<exists>ps. Codec.decode (up_permissions r) = Inr ps"
  using clearPermissions_cases [OF assms(2)]
proof
  assume "s' = s" with assms(1) show ?thesis by simp
next
  let ?Q = "\<lambda>r. up_assignee_external_id r = a \<and> up_assigner_external_id r = b"
  assume "\<exists>user p. parseServiceResult (findUser \<lparr>args_domain = None, args_externalId = Some b,
        args_username = None\<rparr> s) = Inr (Some user) \<and>
      getPermissionsForUser a b s = Inr (ValidResult (Some p)) \<and>
      res = ValidResult \<lparr>cleared_username = username user\<rparr> \<and>
      s' = s\<lparr>user_permissions := update_rows ?Q
             (\<lambda>r. r\<lparr>up_permissions := Codec.encode (filter (\<lambda>x. module x \<noteq> md) (permissions p))\<rparr>)
             (user_permissions s)\<rparr>"
  then obtain p where g: "getPermissionsForUser a b s = Inr (ValidResult (Some p))"
    and s': "s' = s\<lparr>user_permissions := update_rows ?Q
             (\<lambda>r. r\<lparr>up_permissions := Codec.encode (filter (\<lambda>x. module x \<noteq> md) (permissions p))\<rparr>)
             (user_permissions s)\<rparr>"
    by blast
  obtain r where "filter ?Q (user_permissions s) = [r]"
    and dec: "Codec.decode (up_permissions r) = Inr (permissions p)"
    using getPermissionsForUser_Some [OF g] by blast
  have "\<forall>x \<in> set (filter (\<lambda>x. module x \<noteq> md) (permissions p)). wf_perm x"
    using decode_wf [OF dec] by simp
  then have "\<exists>ps. Codec.decode (Codec.encode (filter (\<lambda>x. module x \<noteq> md) (permissions p))) = Inr ps"
    using decode_encode_sorted by blast
  with assms(1) show ?thesis
    by (auto simp: s' update_rows_def)
qed

section \<open>Properties of addPermissions\<close>

text \<open>
  C4: a first grant inserts a row. When the caller owns the username and the
  assignee has no row for it yet, \<open>addPermissions\<close> appends one row holding
  the comma-joined permissions.
\<close>

theorem addPermissions_insert:
  assumes "account_unique (account s)" and "a \<in> set (account s)"
    and "\<forall>r \<in> set (account_permissions s). ap_key r \<noteq> (acc_username a, assignee)"
  shows "addPermissions (acc_username a) assignee (network_id a) perms s =
    Inr (s\<lparr>account_permissions := account_permissions s @
      [\<lparr>ap_network_id = assignee, ap_permissions = join CHR '','' perms, ap_username = acc_username a\<rparr>]\<rparr>)"
proof -
  have "select_rows (\<lambda>r. ap_username r = acc_username a \<and> ap_network_id r = assignee)
      (account_permissions s) = []"
    using assms(3) by (auto simp: select_rows_def filter_empty_conv)
  then show ?thesis
    using caller_rows_single [OF assms(1,2)] by (simp add: addPermissions_def insert_row_def)
qed

text \<open>
  C3: a later grant overwrites the whole stored list. When the assignee
  already has a row for the username, \<open>addPermissions\<close> replaces that row's
  permissions with the new comma-joined list; nothing of the old value is
  kept, and no other row changes.
\<close>

theorem addPermissions_replace:
  assumes "account_unique (account s)" and "a \<in> set (account s)"
    and "distinct (map ap_key (account_permissions s))" and "i < length (account_permissions s)"
    and "ap_key (account_permissions s ! i) = (acc_username a, assignee)"
  shows "addPermissions (acc_username a) assignee (network_id a) perms s =
    Inr (s\<lparr>account_permissions := (account_permissions s)[i :=
      (account_permissions s ! i)\<lparr>ap_permissions := join CHR '','' perms\<rparr>]\<rparr>)"
proof -
  let ?t = "account_permissions s"
  have key: "ap_username (?t ! i) = acc_username a" "ap_network_id (?t ! i) = assignee"
    using assms(5) by simp_all
  have one: "filter (\<lambda>r. ap_username r = acc_username a \<and> ap_network_id r = assignee) ?t = [?t ! i]"
    using filter_distinct_key_single [OF assms(3) nth_mem [OF assms(4)]] key by simp
  have upd: "update_rows (\<lambda>r. ap_username r = acc_username a \<and> ap_network_id r = assignee) f ?t =
      ?t[i := f (?t ! i)]" for f
    using update_rows_key_nth [OF assms(3,4), of f] key by simp
  show ?thesis
    using caller_rows_single [OF assms(1,2)] one upd
    by (simp add: addPermissions_def select_rows_def)
qed

text \<open>
  C5: only the owner of a username may grant on it. When no account row
  pairs the username with the caller's network id, \<open>addPermissions\<close> throws
  \<open>NO_MANAGE_PERMISSION\<close>.
\<close>

theorem addPermissions_no_manage:
  assumes "\<forall>a \<in> set (account s). \<not> (acc_username a = uname \<and> network_id a = caller)"
  shows "addPermissions uname assignee caller perms s =
    Inl (Exception NO_MANAGE_PERMISSION (caller @ '' cannot manage permissions for username '' @ uname @ ''.''))"
  using caller_rows_none [OF assms] by (simp add: addPermissions_def exception_def)

text \<open>
  C8: \<open>addPermissions\<close> keeps one row per (username, assignee) by itself. If
  the keys of \<open>account_permissions\<close> are distinct before a successful call,
  they are distinct after it; the table needs no UNIQUE constraint for this.
\<close>

theorem addPermissions_key_unique:
  assumes "distinct (map ap_key (account_permissions s))"
    and "addPermissions uname assignee caller perms s = Inr s'"
  shows "distinct (map ap_key (account_permissions s'))"
  using addPermissions_cases [OF assms(2)] assms(1)
  by (auto simp: map_update_rows_keep)

text \<open>
  \<open>addPermissions\<close> writes only \<open>account_permissions\<close>. A successful call
  leaves \<open>account\<close>, \<open>scuttlespace_user\<close> and \<open>user_permissions\<close>
  unchanged; in particular nothing it grants is seen by
  \<open>getPermissionsForUser\<close> or \<open>clearPermissions\<close>.
\<close>

theorem addPermissions_frame:
  assumes "addPermissions uname assignee caller perms s = Inr s'"
  shows "s' = s\<lparr>account_permissions := account_permissions s'\<rparr>"
  using addPermissions_cases [OF assms] by auto

text \<open>
  C28: what \<open>addPermissions\<close> grants is invisible to the reading side. After a
  successful \<open>addPermissions\<close>, \<open>getPermissionsForUser\<close> returns exactly what
  it returned before, for every pair: the two services use different tables.
\<close>

theorem addPermissions_invisible:
  assumes "addPermissions u a c ps s = Inr s'"
  shows "getPermissionsForUser x y s' = getPermissionsForUser x y s"
proof -
  have "user_permissions s' = user_permissions s"
    using addPermissions_cases [OF assms] by auto
  then show ?thesis by (rule getPermissionsForUser_tables)
qed

section \<open>Properties of clearPermissions\<close>

text \<open>
  C2: clearing a module rewrites one row. When the assigner has a user and the
  pair has a stored set that decodes, \<open>clearPermissions\<close> returns the
  assigner's username and replaces that row's column with the canonical
  encoding of the set without the module's entries; no other row changes.
\<close>

theorem clearPermissions_spec:
  assumes "assigner \<noteq> []" and "distinct (map network_id (scuttlespace_user s))"
    and "u \<in> set (scuttlespace_user s)" and "network_id u = assigner"
    and "distinct (map up_key (user_permissions s))" and "i < length (user_permissions s)"
    and "up_key (user_permissions s ! i) = (assignee, assigner)"
    and "Codec.decode (up_permissions (user_permissions s ! i)) = Inr ps"
  shows "clearPermissions md assignee assigner s =
    Inr (ValidResult \<lparr>cleared_username = acc_username u\<rparr>,
         s\<lparr>user_permissions := (user_permissions s)[i :=
           (user_permissions s ! i)\<lparr>up_permissions := Codec.encode (filter (\<lambda>x. module x \<noteq> md) ps)\<rparr>]\<rparr>)"
  using clearPermissions_user [OF assms(1-4)] getPermissionsForUser_row [OF assms(5-7)]
    up_rows_single(2) [OF assms(5-7)] assms(8)
  by simp

text \<open>
  C1: clearing refines removal of one module from the permission set. Read
  back through \<open>getPermissionsForUser\<close>, the pair's set after
  \<open>clearPermissions\<close> is the set before with every entry of that module
  removed, and nothing else changed.
\<close>

theorem clearPermissions_refines:
  assumes "assigner \<noteq> []" and "distinct (map network_id (scuttlespace_user s))"
    and "u \<in> set (scuttlespace_user s)" and "network_id u = assigner"
    and "distinct (map up_key (user_permissions s))" and "i < length (user_permissions s)"
    and "up_key (user_permissions s ! i) = (assignee, assigner)"
    and "Codec.decode (up_permissions (user_permissions s ! i)) = Inr ps"
  shows "\<exists>res s' qs. clearPermissions md assignee assigner s = Inr (res, s') \<and>
    getPermissionsForUser assignee assigner s' = Inr (ValidResult (Some \<lparr>permissions = qs\<rparr>)) \<and>
    mset qs = filter_mset (\<lambda>x. module x \<noteq> md) (mset ps)"
proof -
  let ?new = "Codec.encode (filter (\<lambda>x. module x \<noteq> md) ps)"
  let ?s' = "s\<lparr>user_permissions := (user_permissions s)[i :=
           (user_permissions s ! i)\<lparr>up_permissions := ?new\<rparr>]\<rparr>"
  have wf: "\<forall>p \<in> set (filter (\<lambda>x. module x \<noteq> md) ps). wf_perm p"
    using decode_wf [OF assms(8)] by simp
  have d': "distinct (map up_key (user_permissions ?s'))"
    using assms(5,6) by (simp add: map_update distinct_list_update image_iff)
  have k': "up_key (user_permissions ?s' ! i) = (assignee, assigner)"
    using assms(6,7) by simp
  have "getPermissionsForUser assignee assigner ?s' =
     Inr (ValidResult (Some \<lparr>permissions = sort_key perm_token (filter (\<lambda>x. module x \<noteq> md) ps)\<rparr>))"
    using getPermissionsForUser_row [OF d' _ k'] assms(6) decode_encode_sorted [OF wf] by simp
  then show ?thesis
    using clearPermissions_spec [OF assms, of md] by (simp add: mset_filter)
qed

text \<open>
  Clearing is idempotent. Running \<open>clearPermissions\<close> again on the store
  it produced, with the same arguments, gives the same result and changes
  nothing more.
\<close>

theorem clearPermissions_idempotent:
  assumes "clearPermissions md a b s = Inr (res, s')"
  shows "clearPermissions md a b s' = Inr (res, s')"
  using clearPermissions_cases [OF assms]
proof
  assume "s' = s"
  with assms show ?thesis by simp
next
  let ?Q = "\<lambda>r. up_assignee_external_id r = a \<and> up_assigner_external_id r = b"
  assume "\<exists>user p. parseServiceResult (findUser \<lparr>args_domain = None, args_externalId = Some b,
        args_username = None\<rparr> s) = Inr (Some user) \<and>
      getPermissionsForUser a b s = Inr (ValidResult (Some p)) \<and>
      res = ValidResult \<lparr>cleared_username = username user\<rparr> \<and>
      s' = s\<lparr>user_permissions := update_rows ?Q
             (\<lambda>r. r\<lparr>up_permissions := encode (filter (\<lambda>x. module x \<noteq> md) (permissions p))\<rparr>)
             (user_permissions s)\<rparr>"
  then obtain user p where f: "parseServiceResult (findUser \<lparr>args_domain = None, args_externalId = Some b,
        args_username = None\<rparr> s) = Inr (Some user)"
    and g: "getPermissionsForUser a b s = Inr (ValidResult (Some p))"
    and res: "res = ValidResult \<lparr>cleared_username = username user\<rparr>"
    and s': "s' = s\<lparr>user_permissions := update_rows ?Q
             (\<lambda>r. r\<lparr>up_permissions := encode (filter (\<lambda>x. module x \<noteq> md) (permissions p))\<rparr>)
             (user_permissions s)\<rparr>"
    by blast
  let ?ps = "filter (\<lambda>x. module x \<noteq> md) (permissions p)"
  have g': "getPermissionsForUser a b s' = Inr (ValidResult (Some \<lparr>permissions = sort_key perm_token ?ps\<rparr>))"
    using getPermissionsForUser_after_clear [OF g, of md] by (simp only: s')
  have enc: "encode (filter (\<lambda>x. module x \<noteq> md) (sort_key perm_token ?ps)) = encode ?ps"
    using clear_filter_sort_key [of "\<lambda>x. module x \<noteq> md" perm_token "permissions p"]
    by (simp add: encode_mset_eq)
  have upd: "update_rows ?Q (\<lambda>r. r\<lparr>up_permissions := encode ?ps\<rparr>) (user_permissions s') = user_permissions s'"
    by (simp add: s' update_rows_twice comp_def)
  have f': "parseServiceResult (findUser \<lparr>args_domain = None, args_externalId = Some b,
        args_username = None\<rparr> s') = Inr (Some user)"
    using f by (simp add: s')
  show ?thesis
    using f' g' enc upd by (simp add: clearPermissions_def res)
qed

text \<open>
  C26: \<open>clearPermissions\<close> writes only \<open>user_permissions\<close> and neither creates
  nor deletes a row there. After a successful call the other tables are
  unchanged and the keys of \<open>user_permissions\<close> are the same, in the same
  order: a pair with a row keeps it even when its set becomes empty.
\<close>

theorem clearPermissions_frame:
  assumes "clearPermissions md a b s = Inr (res, s')"
  shows "s' = s\<lparr>user_permissions := user_permissions s'\<rparr> \<and>
    map up_key (user_permissions s') = map up_key (user_permissions s)"
  using clearPermissions_cases [OF assms] by (auto simp: map_update_rows_keep)

text \<open>
  C36: an empty assigner id is rejected as a missing selector. With
  \<open>assignerExternalId = ""\<close>, \<open>findUser\<close> sees no truthy selector and
  \<open>clearPermissions\<close> throws \<open>INVALID_ARGS\<close>, not \<open>NO_ACCOUNT\<close>.
\<close>

theorem clearPermissions_empty_assigner:
  "clearPermissions md assignee [] s =
    Inl (Exception INVALID_ARGS ''One of username, domain or externalId needs to be specified.'')"
  by (simp add: clearPermissions_def findUser_def exception_def)

text \<open>
  C25: an assigner without a user gets \<open>NO_ACCOUNT\<close>. When no
  \<open>scuttlespace_user\<close> row has the assigner's id, \<open>clearPermissions\<close>
  returns a \<open>NO_ACCOUNT\<close> error result and writes nothing.
\<close>

theorem clearPermissions_no_account:
  assumes "assigner \<noteq> []" and "\<forall>r \<in> set (scuttlespace_user s). network_id r \<noteq> assigner"
  shows "clearPermissions md assignee assigner s =
    Inr (ErrorResult NO_ACCOUNT (assigner @ '' does not have an user. Create an user first.''), s)"
proof -
  have "filter (\<lambda>r. network_id r = assigner) (scuttlespace_user s) = []"
    using assms(2) by (simp add: filter_empty_conv)
  then show ?thesis
    using findUser_externalId [OF assms(1), of s] by (simp add: clearPermissions_def)
qed

text \<open>
  Clearing a pair with no stored set is a no-op. When the assigner has a
  user and the pair has no row, \<open>clearPermissions\<close> returns the assigner's
  username and writes nothing.
\<close>

theorem clearPermissions_no_row:
  assumes "assigner \<noteq> []" and "distinct (map network_id (scuttlespace_user s))"
    and "u \<in> set (scuttlespace_user s)" and "network_id u = assigner"
    and "\<forall>r \<in> set (user_permissions s). up_key r \<noteq> (assignee, assigner)"
  shows "clearPermissions md assignee assigner s =
    Inr (ValidResult \<lparr>cleared_username = acc_username u\<rparr>, s)"
  using clearPermissions_user [OF assms(1-4)] getPermissionsForUser_no_row [OF assms(5)] by simp

text \<open>
  C37: a corrupt stored set aborts the clear. When the pair's stored string
  does not decode, \<open>clearPermissions\<close> throws the decoder's
  \<open>MALFORMED_PERMISSION_TOKEN\<close> error and writes nothing.
\<close>

theorem clearPermissions_malformed:
  assumes "assigner \<noteq> []" and "distinct (map network_id (scuttlespace_user s))"
    and "u \<in> set (scuttlespace_user s)" and "network_id u = assigner"
    and "distinct (map up_key (user_permissions s))" and "i < length (user_permissions s)"
    and "up_key (user_permissions s ! i) = (assignee, assigner)"
    and "Codec.decode (up_permissions (user_permissions s ! i)) = Inl e"
  shows "clearPermissions md assignee assigner s = Inl e"
  using clearPermissions_user [OF assms(1-4)] getPermissionsForUser_row [OF assms(5-7)] assms(8)
  by simp

end
