(* ===== verification/Concurrency.thy ===== *)
theory Concurrency
  imports Permissions
begin

text \<open>
  Concurrent requests. Each exported permission function of the sources is a
  read phase (its SELECTs and the decision taken on their row counts)
  followed by a write phase (its one INSERT or UPDATE), with an \<open>await\<close> in
  between; two requests on the same pool may interleave there. This theory
  splits \<open>addPermissions\<close> (src/src/add-permissions.ts) and
  \<open>clearPermissions\<close> (src/src/permissions/clear.ts) into the two phases,
  proves that running the phases back to back is the atomic function of
  \<open>Permissions\<close>, and runs two requests with both reads before both writes:
  two first grants to the same pair insert two rows, after which every grant
  on the pair throws; two clears of different modules lose one of the
  removals (the last writer wins), as the spec's concurrency section warns.
  The theory \<open>Interleaving\<close> generalises this to any number of requests
  interleaved at every \<open>await\<close>.
\<close>

section \<open>Two phases of addPermissions\<close>

text \<open>What the read phase of \<open>addPermissions\<close> decided to write.\<close>

datatype add_plan =
    AddInsert ap_row
  | AddUpdate string string string
  | AddThrow exn
  | AddNothing

text \<open>
  The first SELECT and its branch (add-permissions.ts lines 15--28, 75--83):
  \<open>None\<close> when the caller owns the username and the request goes on to
  its second query, otherwise the plan that ends it.
\<close>

definition addPermissions_check :: "string \<Rightarrow> string \<Rightarrow> db \<Rightarrow> add_plan option" where
  "addPermissions_check uname caller s =
     (let accountRows = select_rows (\<lambda>r. acc_username r = uname \<and> network_id r = caller) (account s) in
      if length accountRows = 1 then None
      else if length accountRows = 0 then
        Some (AddThrow (Exception NO_MANAGE_PERMISSION
          (caller @ '' cannot manage permissions for username '' @ uname @ ''.'')))
      else Some (case singleOrNone accountRows of Inl e \<Rightarrow> AddThrow e | Inr _ \<Rightarrow> AddNothing))"

text \<open>The second SELECT and its branch (add-permissions.ts lines 29--47, 55, 72--74).\<close>

definition addPermissions_plan :: "string \<Rightarrow> string \<Rightarrow> string list \<Rightarrow> db \<Rightarrow> add_plan" where
  "addPermissions_plan uname assignee perms s =
     (let permissionsRows =
            select_rows (\<lambda>r. ap_username r = uname \<and> ap_network_id r = assignee)
              (account_permissions s);
          joined = join CHR '','' perms in
      if length permissionsRows = 0 then
        AddInsert \<lparr>ap_network_id = assignee, ap_permissions = joined, ap_username = uname\<rparr>
      else if length permissionsRows = 1 then AddUpdate uname assignee joined
      else (case singleOrNone permissionsRows of Inl e \<Rightarrow> AddThrow e | Inr _ \<Rightarrow> AddNothing))"

text \<open>The read phase with both SELECTs on one snapshot; \<open>Interleaving\<close> also lets a request run between them.\<close>

definition addPermissions_read :: "string \<Rightarrow> string \<Rightarrow> string \<Rightarrow> string list \<Rightarrow> db \<Rightarrow> add_plan" where
  "addPermissions_read uname assignee caller perms s =
     (case addPermissions_check uname caller s of
        None \<Rightarrow> addPermissions_plan uname assignee perms s
      | Some pl \<Rightarrow> pl)"

text \<open>The INSERT or UPDATE (add-permissions.ts lines 47--71).\<close>

fun addPermissions_write :: "add_plan \<Rightarrow> db \<Rightarrow> exn + db" where
  "addPermissions_write (AddInsert r) s =
     Inr (s\<lparr>account_permissions := insert_row r (account_permissions s)\<rparr>)"
| "addPermissions_write (AddUpdate u a j) s =
     Inr (s\<lparr>account_permissions :=
       update_rows (\<lambda>r. ap_username r = u \<and> ap_network_id r = a)
         (\<lambda>r. r\<lparr>ap_permissions := j\<rparr>) (account_permissions s)\<rparr>)"
| "addPermissions_write (AddThrow e) s = Inl e"
| "addPermissions_write AddNothing s = Inr s"

section \<open>Two phases of clearPermissions\<close>

text \<open>
  The read phase of \<open>clearPermissions\<close> (clear.ts lines 20--44): the result it
  will return and the new column value, if it will write one.
\<close>

definition clearPermissions_read ::
  "string \<Rightarrow> string \<Rightarrow> string \<Rightarrow> db \<Rightarrow> exn + IClearResult service_result \<times> string option" where
  "clearPermissions_read md assignee assigner s =
     sbind (parseServiceResult
       (findUser \<lparr>args_domain = None, args_externalId = Some assigner, args_username = None\<rparr> s))
     (\<lambda>maybeUser.
      case maybeUser of
        None \<Rightarrow> Inr (ErrorResult NO_ACCOUNT
                  (assigner @ '' does not have an user. Create an user first.''), None)
      | Some user \<Rightarrow>
          sbind (parseServiceResult (getPermissionsForUser assignee assigner s))
          (\<lambda>maybePermissions.
           case maybePermissions of
             None \<Rightarrow> Inr (ValidResult \<lparr>cleared_username = username user\<rparr>, None)
           | Some p \<Rightarrow>
               Inr (ValidResult \<lparr>cleared_username = username user\<rparr>,
                    Some (encode (filter (\<lambda>x. module x \<noteq> md) (permissions p))))))"

text \<open>The UPDATE of clear.ts lines 46--60.\<close>

definition clearPermissions_write :: "string \<Rightarrow> string \<Rightarrow> string option \<Rightarrow> db \<Rightarrow> db" where
  "clearPermissions_write assignee assigner np s =
     (case np of
        None \<Rightarrow> s
      | Some v \<Rightarrow> s\<lparr>user_permissions :=
          update_rows (\<lambda>r. up_assignee_external_id r = assignee \<and> up_assigner_external_id r = assigner)
            (\<lambda>r. r\<lparr>up_permissions := v\<rparr>) (user_permissions s)\<rparr>)"

section \<open>Two requests with both reads first\<close>

text \<open>A write whose request threw leaves the store as it was.\<close>

definition store_after :: "exn + db \<Rightarrow> db \<Rightarrow> db" where
  "store_after r s = (case r of Inl _ \<Rightarrow> s | Inr s' \<Rightarrow> s')"

text \<open>Two \<open>addPermissions\<close> requests: both read \<open>s\<close>, then the first writes, then the second.\<close>

definition concurrent_add ::
  "string \<times> string \<times> string \<times> string list \<Rightarrow> string \<times> string \<times> string \<times> string list \<Rightarrow> db \<Rightarrow> db" where
  "concurrent_add r1 r2 s =
     (case (r1, r2) of ((u1, a1, c1, p1), (u2, a2, c2, p2)) \<Rightarrow>
       (let plan1 = addPermissions_read u1 a1 c1 p1 s;
            plan2 = addPermissions_read u2 a2 c2 p2 s;
            s1 = store_after (addPermissions_write plan1 s) s
        in store_after (addPermissions_write plan2 s1) s1))"

text \<open>Two \<open>clearPermissions\<close> requests: both read \<open>s\<close>, then the first writes, then the second.\<close>

definition concurrent_clear ::
  "string \<times> string \<times> string \<Rightarrow> string \<times> string \<times> string \<Rightarrow> db \<Rightarrow> db" where
  "concurrent_clear r1 r2 s =
     (case (r1, r2) of ((m1, a1, b1), (m2, a2, b2)) \<Rightarrow>
       (let np1 = (case clearPermissions_read m1 a1 b1 s of Inl _ \<Rightarrow> None | Inr (_, v) \<Rightarrow> v);
            np2 = (case clearPermissions_read m2 a2 b2 s of Inl _ \<Rightarrow> None | Inr (_, v) \<Rightarrow> v)
        in clearPermissions_write a2 b2 np2 (clearPermissions_write a1 b1 np1 s)))"


section \<open>Properties\<close>

lemma addPermissions_split:
  "addPermissions u a c ps s =
     (case addPermissions_check u c s of
        None \<Rightarrow> addPermissions_write (addPermissions_plan u a ps s) s
      | Some pl \<Rightarrow> addPermissions_write pl s)"
  by (simp add: addPermissions_def addPermissions_check_def addPermissions_plan_def Let_def
      exception_def sbind_def split: sum.splits)

lemma clearPermissions_two_phase:
  "clearPermissions md assignee assigner s =
     (case clearPermissions_read md assignee assigner s of
        Inl e \<Rightarrow> Inl e
      | Inr (res, np) \<Rightarrow> Inr (res, clearPermissions_write assignee assigner np s))"
  by (auto simp: clearPermissions_def clearPermissions_read_def clearPermissions_write_def Let_def
      sbind_def split: sum.splits option.splits)

text \<open>
  The two-phase split of \<open>addPermissions\<close> is faithful. Running its
  read phase and then its write phase on the same store is exactly
  \<open>addPermissions\<close>.
\<close>

theorem addPermissions_two_phase:
  "addPermissions u a c ps s = addPermissions_write (addPermissions_read u a c ps s) s"
  by (simp add: addPermissions_split addPermissions_read_def split: option.splits)

text \<open>
  C32: concurrent first grants duplicate the relationship row. When the
  caller owns the username and the assignee has no row yet, two
  \<open>addPermissions\<close> requests whose reads both precede both writes leave two
  rows with the same (username, assignee) key, and every later
  \<open>addPermissions\<close> on that pair throws a data-integrity violation.
\<close>

theorem concurrent_grants_duplicate:
  assumes "account_unique (account s)" and "a \<in> set (account s)"
    and "\<forall>r \<in> set (account_permissions s). ap_key r \<noteq> (acc_username a, assignee)"
  shows "length (filter (\<lambda>r. ap_key r = (acc_username a, assignee))
      (account_permissions (concurrent_add (acc_username a, assignee, network_id a, p1)
         (acc_username a, assignee, network_id a, p2) s))) = 2 \<and>
    addPermissions (acc_username a) assignee (network_id a) p3
      (concurrent_add (acc_username a, assignee, network_id a, p1)
         (acc_username a, assignee, network_id a, p2) s) =
    Inl (Exception DATA_INTEGRITY_VIOLATION ''Expected a single row or none.'')"
proof -
  let ?u = "acc_username a" and ?n = "network_id a"
  let ?row = "\<lambda>p. \<lparr>ap_network_id = assignee, ap_permissions = join CHR '','' p, ap_username = ?u\<rparr>"
  have acc: "select_rows (\<lambda>r. acc_username r = ?u \<and> network_id r = ?n) (account s) = [a]"
    using caller_rows_single [OF assms(1,2)] .
  have none: "select_rows (\<lambda>r. ap_username r = ?u \<and> ap_network_id r = assignee)
      (account_permissions s) = []"
    using assms(3) by (auto simp: select_rows_def filter_empty_conv)
  have plan: "addPermissions_read ?u assignee ?n p s = AddInsert (?row p)" for p
    using acc none by (simp add: addPermissions_read_def addPermissions_check_def addPermissions_plan_def)
  let ?s' = "s\<lparr>account_permissions := account_permissions s @ [?row p1, ?row p2]\<rparr>"
  have s': "concurrent_add (?u, assignee, ?n, p1) (?u, assignee, ?n, p2) s = ?s'"
    by (simp add: concurrent_add_def plan store_after_def insert_row_def)
  have two: "filter (\<lambda>r. ap_username r = ?u \<and> ap_network_id r = assignee) (account_permissions ?s') =
      [?row p1, ?row p2]"
    using none by (simp add: select_rows_def)
  have acc': "select_rows (\<lambda>r. acc_username r = ?u \<and> network_id r = ?n) (account ?s') = [a]"
    using acc by simp
  show ?thesis
    using two acc' by (simp add: s' addPermissions_def select_rows_def singleOrNone_def)
qed

lemma clearPermissions_read_found:
  assumes "parseServiceResult (findUser \<lparr>args_domain = None, args_externalId = Some b, args_username = None\<rparr> s) =
      Inr (Some user)"
    and "getPermissionsForUser a b s = Inr (ValidResult (Some p))"
  shows "clearPermissions_read m a b s =
    Inr (ValidResult \<lparr>cleared_username = username user\<rparr>,
         Some (encode (filter (\<lambda>x. module x \<noteq> m) (permissions p))))"
  using assms by (simp add: clearPermissions_read_def)

lemma clearPermissions_write_twice:
  "clearPermissions_write a b (Some v2) (clearPermissions_write a b (Some v1) s) =
   clearPermissions_write a b (Some v2) s"
  by (simp add: clearPermissions_write_def update_rows_twice comp_def)

lemma clearPermissions_write_findUser [simp]:
  "findUser q (clearPermissions_write a b np s) = findUser q s"
  by (cases np) (simp_all add: clearPermissions_write_def)

lemma clearPermissions_write_readback:
  assumes "getPermissionsForUser a b s = Inr (ValidResult (Some p))"
  shows "getPermissionsForUser a b
      (clearPermissions_write a b (Some (encode (filter (\<lambda>x. module x \<noteq> m) (permissions p)))) s) =
    Inr (ValidResult (Some \<lparr>permissions = sort_key perm_token (filter (\<lambda>x. module x \<noteq> m) (permissions p))\<rparr>))"
  using getPermissionsForUser_after_clear [OF assms] by (simp add: clearPermissions_write_def)

text \<open>
  C33: concurrent clears lose an update. For any store where the assigner
  has a user and the pair's permissions read back as \<open>p\<close>, clearing
  \<open>m1\<close> and clearing \<open>m2\<close> with both reads before both writes leaves
  exactly the store that clearing \<open>m2\<close> alone leaves: the pair reads back
  as \<open>p\<close> without \<open>m2\<close>, every entry of \<open>m1\<close> still there. The second
  write, computed from the old snapshot, overwrites the first.
\<close>

theorem concurrent_clears_lose_update:
  assumes u: "parseServiceResult (findUser \<lparr>args_domain = None, args_externalId = Some b, args_username = None\<rparr> s) =
      Inr (Some user)"
    and p: "getPermissionsForUser a b s = Inr (ValidResult (Some p))"
  shows "clearPermissions m2 a b s =
      Inr (ValidResult \<lparr>cleared_username = username user\<rparr>, concurrent_clear (m1, a, b) (m2, a, b) s) \<and>
    getPermissionsForUser a b (concurrent_clear (m1, a, b) (m2, a, b) s) =
      Inr (ValidResult (Some \<lparr>permissions = sort_key perm_token (filter (\<lambda>x. module x \<noteq> m2) (permissions p))\<rparr>))"
  using clearPermissions_read_found [OF u p] clearPermissions_write_readback [OF p]
  by (simp add: concurrent_clear_def clearPermissions_two_phase clearPermissions_write_twice)

end
