(* ===== verification/Scheduler.thy ===== *)
theory Scheduler
  imports Auth_Base
begin

text \<open>
  Requests in flight on one event loop, for any kind of request. A request
  is a task of type \<open>'t\<close>; a step function runs its next awaited query on the
  store \<open>'s\<close> and returns the task after it, or \<open>None\<close> when the task has
  returned. \<open>interleave step\<close> lets any unfinished task take its step, in any
  order; \<open>run_sched\<close> runs a given schedule of task indices; \<open>task_run\<close> is
  one task running alone; \<open>serial\<close> runs requests one after another through
  an atomic reading of each. The lemmas are stated for any step function:
  lifting a task's own run into the interleaving, schedules as runs,
  termination from a weight that every step lowers, completion, invariants
  and counters kept by every step, and serial execution as a run. The
  permission requests (\<open>Interleaving\<close>) and the whole service
  (\<open>Service_Races\<close>) instantiate them.
\<close>

type_synonym ('t, 's) stepfn = "'t \<Rightarrow> 's \<Rightarrow> ('t \<times> 's) option"

inductive interleave :: "('t, 's) stepfn \<Rightarrow> 's \<times> 't list \<Rightarrow> 's \<times> 't list \<Rightarrow> bool"
  for step :: "('t, 's) stepfn" where
  pick: "\<lbrakk>i < length ts; step (ts ! i) s = Some (t, s')\<rbrakk> \<Longrightarrow> interleave step (s, ts) (s', ts[i := t])"

inductive_cases interleaveE: "interleave step c c'"

fun run_sched :: "('t, 's) stepfn \<Rightarrow> nat list \<Rightarrow> 's \<times> 't list \<Rightarrow> ('s \<times> 't list) option" where
  "run_sched step [] c = Some c"
| "run_sched step (i # is) (s, ts) =
     (if i < length ts then
        (case step (ts ! i) s of
           None \<Rightarrow> None
         | Some (t, s') \<Rightarrow> run_sched step is (s', ts[i := t]))
      else None)"

inductive task_run :: "('t, 's) stepfn \<Rightarrow> 't \<Rightarrow> 's \<Rightarrow> 't \<Rightarrow> 's \<Rightarrow> bool"
  for step :: "('t, 's) stepfn" where
  run_refl: "task_run step t s t s"
| run_step: "step t s = Some (t1, s1) \<Longrightarrow> task_run step t1 s1 t2 s2 \<Longrightarrow> task_run step t s t2 s2"

definition sched_weight :: "('t \<Rightarrow> nat) \<Rightarrow> 's \<times> 't list \<Rightarrow> nat" where
  "sched_weight w c = sum_list (map w (snd c))"

text \<open>What the lemmas need of a step function.\<close>

definition step_lowers :: "('t, 's) stepfn \<Rightarrow> ('t \<Rightarrow> nat) \<Rightarrow> bool" where
  "step_lowers step w \<longleftrightarrow> (\<forall>t s t' s'. step t s = Some (t', s') \<longrightarrow> w t' < w t)"

definition step_returns :: "('t, 's) stepfn \<Rightarrow> ('t \<Rightarrow> bool) \<Rightarrow> bool" where
  "step_returns step fin \<longleftrightarrow> (\<forall>t s. step t s = None \<longleftrightarrow> fin t)"

definition step_keeps :: "('t, 's) stepfn \<Rightarrow> ('s \<Rightarrow> bool) \<Rightarrow> ('t \<Rightarrow> bool) \<Rightarrow> bool" where
  "step_keeps step P Q \<longleftrightarrow>
     (\<forall>t s t' s'. step t s = Some (t', s') \<longrightarrow> P s \<longrightarrow> Q t \<longrightarrow> P s' \<and> Q t')"

definition step_counts ::
  "('t, 's) stepfn \<Rightarrow> ('t \<Rightarrow> bool) \<Rightarrow> ('s \<Rightarrow> nat) \<Rightarrow> ('t \<Rightarrow> nat) \<Rightarrow> bool" where
  "step_counts step Q f g \<longleftrightarrow>
     (\<forall>t s t' s'. step t s = Some (t', s') \<longrightarrow> Q t \<longrightarrow> Q t' \<and> f s' + g t' \<le> f s + g t)"

fun serial :: "('r \<Rightarrow> 's \<Rightarrow> 'x \<times> 's) \<Rightarrow> 'r list \<Rightarrow> 's \<Rightarrow> 'x list \<times> 's" where
  "serial f [] s = ([], s)"
| "serial f (r # rs) s =
     (case f r s of (x, s1) \<Rightarrow> (case serial f rs s1 of (xs, s2) \<Rightarrow> (x # xs, s2)))"

section \<open>Runs and schedules\<close>

lemma step_lowersD: "step_lowers step w \<Longrightarrow> step t s = Some (t', s') \<Longrightarrow> w t' < w t"
  unfolding step_lowers_def by blast

lemma step_keepsD:
  "step_keeps step P Q \<Longrightarrow> step t s = Some (t', s') \<Longrightarrow> P s \<Longrightarrow> Q t \<Longrightarrow> P s' \<and> Q t'"
  unfolding step_keeps_def by blast

lemma step_countsD:
  "step_counts step Q f g \<Longrightarrow> step t s = Some (t', s') \<Longrightarrow> Q t \<Longrightarrow> Q t' \<and> f s' + g t' \<le> f s + g t"
  unfolding step_counts_def by blast

lemma interleave_at:
  "interleave step (s, ts) c' \<longleftrightarrow>
   (\<exists>i t s'. i < length ts \<and> step (ts ! i) s = Some (t, s') \<and> c' = (s', ts[i := t]))"
  by (auto simp: interleave.simps)

lemma task_run_lift:
  "task_run step t s t' s' \<Longrightarrow> i < length ts \<Longrightarrow>
   (interleave step)\<^sup>*\<^sup>* (s, ts[i := t]) (s', ts[i := t'])"
proof (induction arbitrary: ts rule: task_run.induct)
  case (run_refl t s) then show ?case by simp
next
  case (run_step t s t1 s1 t2 s2)
  have "interleave step (s, ts[i := t]) (s1, (ts[i := t])[i := t1])"
    using run_step.prems run_step.hyps(1) by (intro interleave.pick) simp_all
  moreover have "(interleave step)\<^sup>*\<^sup>* (s1, ts[i := t1]) (s2, ts[i := t2])"
    by (rule run_step.IH [OF run_step.prems])
  ultimately show ?case by simp
qed

lemma task_run_trans:
  "task_run step t s t1 s1 \<Longrightarrow> task_run step t1 s1 t2 s2 \<Longrightarrow> task_run step t s t2 s2"
  by (induction rule: task_run.induct) (auto intro: task_run.run_step)

lemma task_run_one:
  "step t s = Some (t', s') \<Longrightarrow> task_run step t s t' s'"
  by (rule task_run.run_step [OF _ task_run.run_refl])

lemma run_sched_Cons_Some:
  assumes "run_sched step (i # is) (s, ts) = Some c'"
  obtains t s' where "i < length ts" and "step (ts ! i) s = Some (t, s')"
    and "run_sched step is (s', ts[i := t]) = Some c'"
  using assms by (auto split: if_splits option.splits)

lemma run_sched_relpowp:
  "run_sched step is c = Some c' \<Longrightarrow> (interleave step ^^ length is) c c'"
proof (induction "is" arbitrary: c)
  case Nil then show ?case by simp
next
  case (Cons i "is")
  obtain s ts where c: "c = (s, ts)" by fastforce
  from Cons.prems c have "run_sched step (i # is) (s, ts) = Some c'" by simp
  then obtain t s' where "i < length ts" and "step (ts ! i) s = Some (t, s')"
    and r: "run_sched step is (s', ts[i := t]) = Some c'"
    by (rule run_sched_Cons_Some)
  then have "interleave step c (s', ts[i := t])" using c by (simp add: interleave.pick)
  then have "(interleave step ^^ Suc (length is)) c c'" by (rule relpowp_Suc_I2 [OF _ Cons.IH [OF r]])
  then show ?case by simp
qed

lemma run_sched_interleave:
  "run_sched step is c = Some c' \<Longrightarrow> (interleave step)\<^sup>*\<^sup>* c c'"
  by (metis run_sched_relpowp relpowp_imp_rtranclp)

lemma interleave_run_sched:
  "(interleave step)\<^sup>*\<^sup>* c c' \<Longrightarrow> \<exists>is. run_sched step is c = Some c'"
proof (induction rule: converse_rtranclp_induct)
  case base then show ?case using run_sched.simps(1) by blast
next
  case (step c c1)
  from step.IH obtain "is" where r: "run_sched step is c1 = Some c'" ..
  from step.hyps(1) obtain i ts s t s' where "c = (s, ts)" and "c1 = (s', ts[i := t])"
    and "i < length ts" and "step (ts ! i) s = Some (t, s')"
    by (blast elim: interleaveE)
  then have "run_sched step (i # is) c = Some c'" using r by simp
  then show ?case ..
qed

section \<open>Termination and completion\<close>

lemma interleave_weight:
  assumes "step_lowers step w" and "interleave step c c'"
  shows "sched_weight w c' < sched_weight w c"
proof -
  from assms(2) obtain i ts s t s' where c: "c = (s, ts)" and c': "c' = (s', ts[i := t])"
    and i: "i < length ts" and st: "step (ts ! i) s = Some (t, s')"
    by (blast elim: interleaveE)
  have "w t < w (ts ! i)" by (rule step_lowersD [OF assms(1) st])
  then show ?thesis
    using sum_list_map_update [OF i, of w t] c c' by (simp add: sched_weight_def)
qed

lemma interleave_wfp:
  assumes "step_lowers step w"
  shows "wfp (\<lambda>c' c. interleave step c c')"
proof (rule wfp_if_convertible_to_nat)
  fix x y assume "interleave step y x"
  then show "sched_weight w x < sched_weight w y" by (rule interleave_weight [OF assms])
qed

lemma relpowp_interleave_weight:
  assumes "step_lowers step w"
  shows "(interleave step ^^ n) c c' \<Longrightarrow> n + sched_weight w c' \<le> sched_weight w c"
proof (induction n arbitrary: c')
  case 0 then show ?case by simp
next
  case (Suc n)
  then obtain c1 where "(interleave step ^^ n) c c1" and "interleave step c1 c'" by auto
  with Suc.IH [of c1] interleave_weight [OF assms, of c1 c'] show ?case by simp
qed

lemma interleave_progress:
  assumes "step_returns step fin" and "\<not> list_all fin ts"
  shows "\<exists>c'. interleave step (s, ts) c'"
proof -
  from assms(2) obtain i where i: "i < length ts" and nd: "\<not> fin (ts ! i)"
    by (auto simp: list_all_length)
  then obtain t s' where "step (ts ! i) s = Some (t, s')"
    using assms(1) by (metis step_returns_def not_None_eq surj_pair)
  with i show ?thesis by (blast intro: interleave.pick)
qed

lemma interleave_completes:
  assumes dec: "step_lowers step w" and fin: "step_returns step fin"
  shows "\<exists>c'. (interleave step)\<^sup>*\<^sup>* c c' \<and> list_all fin (snd c')"
proof (induction "sched_weight w c" arbitrary: c rule: less_induct)
  case less
  obtain s ts where c: "c = (s, ts)" by fastforce
  show ?case
  proof (cases "list_all fin ts")
    case True with c show ?thesis by auto
  next
    case False
    then obtain c1 where st: "interleave step c c1" using interleave_progress [OF fin] c by blast
    with less interleave_weight [OF dec] obtain c' where "(interleave step)\<^sup>*\<^sup>* c1 c'"
      and "list_all fin (snd c')" by blast
    with st show ?thesis by (meson converse_rtranclp_into_rtranclp)
  qed
qed

section \<open>Invariants and counters\<close>

lemma interleave_invariant:
  assumes inv: "step_keeps step P Q"
  shows "(interleave step)\<^sup>*\<^sup>* (s, ts) (s', ts') \<Longrightarrow> P s \<Longrightarrow> list_all Q ts \<Longrightarrow>
    P s' \<and> list_all Q ts'"
proof (induction rule: rtranclp_induct2)
  case refl then show ?case by simp
next
  case (step s1 ts1 s2 ts2)
  then have P1: "P s1" and Q1: "list_all Q ts1" by simp_all
  from step.hyps(2) obtain i t where i: "i < length ts1" and st: "step (ts1 ! i) s1 = Some (t, s2)"
    and ts2: "ts2 = ts1[i := t]"
    by (blast elim: interleaveE)
  have "P s2 \<and> Q t" using step_keepsD [OF inv st P1] Q1 i by (simp add: list_all_length)
  with Q1 show ?case by (simp add: ts2 list_all_list_update)
qed

lemma interleave_counter:
  assumes ctr: "step_counts step Q f g"
  shows "(interleave step)\<^sup>*\<^sup>* (s, ts) (s', ts') \<Longrightarrow> list_all Q ts \<Longrightarrow>
    list_all Q ts' \<and> f s' + sum_list (map g ts') \<le> f s + sum_list (map g ts)"
proof (induction rule: rtranclp_induct2)
  case refl then show ?case by simp
next
  case (step s1 ts1 s2 ts2)
  then have Q1: "list_all Q ts1" and le1: "f s1 + sum_list (map g ts1) \<le> f s + sum_list (map g ts)"
    by simp_all
  from step.hyps(2) obtain i t where i: "i < length ts1" and st: "step (ts1 ! i) s1 = Some (t, s2)"
    and ts2: "ts2 = ts1[i := t]"
    by (blast elim: interleaveE)
  have "Q t \<and> f s2 + g t \<le> f s1 + g (ts1 ! i)"
    using step_countsD [OF ctr st] Q1 i by (simp add: list_all_length)
  with Q1 le1 show ?case
    using sum_list_map_update [OF i, of g t] by (simp add: ts2 list_all_list_update)
qed

section \<open>Serial execution\<close>

lemma serial_interleave:
  assumes alone: "\<And>r s. task_run step (fresh r) s (fin r (fst (f r s))) (snd (f r s))"
  shows "(interleave step)\<^sup>*\<^sup>* (s, pre @ map fresh rs)
           (snd (serial f rs s), pre @ map2 fin rs (fst (serial f rs s)))"
proof (induction rs arbitrary: pre s)
  case Nil then show ?case by simp
next
  case (Cons r rs)
  obtain x s1 where a: "f r s = (x, s1)" by fastforce
  have "(interleave step)\<^sup>*\<^sup>* (s, (pre @ fresh r # map fresh rs)[length pre := fresh r])
      (s1, (pre @ fresh r # map fresh rs)[length pre := fin r x])"
    using task_run_lift [OF alone [of r s], of "length pre" "pre @ fresh r # map fresh rs"] a
    by simp
  then have first: "(interleave step)\<^sup>*\<^sup>* (s, pre @ fresh r # map fresh rs)
      (s1, (pre @ [fin r x]) @ map fresh rs)"
    by simp
  have rest: "(interleave step)\<^sup>*\<^sup>* (s1, (pre @ [fin r x]) @ map fresh rs)
      (snd (serial f rs s1), (pre @ [fin r x]) @ map2 fin rs (fst (serial f rs s1)))"
    by (rule Cons.IH)
  show ?case using rtranclp_trans [OF first rest] a by (cases "serial f rs s1") simp
qed

end
