(* ===== verification/Interleaving.thy ===== *)
theory Interleaving
  imports Concurrency Scheduler
begin

text \<open>
  Any number of permission requests in flight at once. Every \<open>await\<close> of
  \<open>addPermissions\<close> (src/src/add-permissions.ts: SELECT on account, SELECT on
  account_permissions, INSERT or UPDATE) and of \<open>clearPermissions\<close>
  (src/src/permissions/clear.ts: findUser, getPermissionsForUser, UPDATE) is a
  point where another request on the same pool may run. A task is a request
  with the phase it has reached; \<open>task_step\<close> runs its next query and the
  branch on its result; \<open>istep\<close> lets any unfinished task take its step, in
  any order. \<open>run_sched\<close> runs a given schedule of task indices. The
  theory proves that every run ends (the weight of the phases drops at every
  step, at most three steps per request), that a run can always be completed,
  that running the requests one after the other is a run whose results are
  those of the atomic functions, and what every interleaving preserves: the
  account tables, the keys of user_permissions, the decodability of the
  stored permission strings, and a bound on the rows of each
  account_permissions key by the number of grants to it.
\<close>

section \<open>Tasks and their steps\<close>

text \<open>What a request returned: a thrown exception, or the function's result.\<close>

datatype response =
    Threw exn
  | AddReturned
  | ClearReturned "IClearResult service_result"

text \<open>
  Phases of \<open>addPermissions\<close>: before its first query, after the caller's
  ownership was confirmed, with its INSERT or UPDATE planned, returned.
\<close>

datatype add_phase = AFresh | AOwned | APlanned add_plan | ADone response

text \<open>
  Phases of \<open>clearPermissions\<close>: before findUser, with the assigner's user
  found, with the new column value computed, returned.
\<close>

datatype clear_phase =
    CFresh
  | CFound IGetUserResult
  | CPlanned IGetUserResult string
  | CDone response

datatype task =
    AddTask string string string "string list" add_phase
  | ClearTask string string string clear_phase

type_synonym config = "db \<times> task list"

text \<open>The function ends with its plan: the write, if any, then the return.\<close>

definition add_finish :: "add_plan \<Rightarrow> db \<Rightarrow> add_phase \<times> db" where
  "add_finish pl s =
     (case addPermissions_write pl s of
        Inl e \<Rightarrow> (ADone (Threw e), s)
      | Inr s' \<Rightarrow> (ADone AddReturned, s'))"

fun add_writes :: "add_plan \<Rightarrow> bool" where
  "add_writes (AddInsert _) = True"
| "add_writes (AddUpdate _ _ _) = True"
| "add_writes _ = False"

text \<open>
  One query of \<open>addPermissions\<close> and the branch on its rows (lines 19--28,
  33--47 and 48--71); a plan that throws or does nothing ends the function
  without another query.
\<close>

fun add_step ::
  "string \<Rightarrow> string \<Rightarrow> string \<Rightarrow> string list \<Rightarrow> add_phase \<Rightarrow> db \<Rightarrow> (add_phase \<times> db) option" where
  "add_step u a c p AFresh s =
     Some (case addPermissions_check u c s of
             None \<Rightarrow> (AOwned, s)
           | Some pl \<Rightarrow> add_finish pl s)"
| "add_step u a c p AOwned s =
     Some (let pl = addPermissions_plan u a p s in
           if add_writes pl then (APlanned pl, s) else add_finish pl s)"
| "add_step u a c p (APlanned pl) s = Some (add_finish pl s)"
| "add_step u a c p (ADone r) s = None"

text \<open>One awaited call of \<open>clearPermissions\<close> and the branch on its result (clear.ts lines 21--67).\<close>

fun clear_step ::
  "string \<Rightarrow> string \<Rightarrow> string \<Rightarrow> clear_phase \<Rightarrow> db \<Rightarrow> (clear_phase \<times> db) option" where
  "clear_step md assignee assigner CFresh s =
     Some (case parseServiceResult
                  (findUser \<lparr>args_domain = None, args_externalId = Some assigner, args_username = None\<rparr> s) of
             Inl e \<Rightarrow> (CDone (Threw e), s)
           | Inr None \<Rightarrow> (CDone (ClearReturned (ErrorResult NO_ACCOUNT
                 (assigner @ '' does not have an user. Create an user first.''))), s)
           | Inr (Some user) \<Rightarrow> (CFound user, s))"
| "clear_step md assignee assigner (CFound user) s =
     Some (case parseServiceResult (getPermissionsForUser assignee assigner s) of
             Inl e \<Rightarrow> (CDone (Threw e), s)
           | Inr None \<Rightarrow> (CDone (ClearReturned (ValidResult \<lparr>cleared_username = username user\<rparr>)), s)
           | Inr (Some p) \<Rightarrow>
               (CPlanned user (encode (filter (\<lambda>x. module x \<noteq> md) (permissions p))), s))"
| "clear_step md assignee assigner (CPlanned user v) s =
     Some (CDone (ClearReturned (ValidResult \<lparr>cleared_username = username user\<rparr>)),
           clearPermissions_write assignee assigner (Some v) s)"
| "clear_step md assignee assigner (CDone r) s = None"

fun task_step :: "task \<Rightarrow> db \<Rightarrow> (task \<times> db) option" where
  "task_step (AddTask u a c p ph) s = map_option (apfst (AddTask u a c p)) (add_step u a c p ph s)"
| "task_step (ClearTask md a b ph) s = map_option (apfst (ClearTask md a b)) (clear_step md a b ph s)"

fun task_done :: "task \<Rightarrow> bool" where
  "task_done (AddTask _ _ _ _ (ADone _)) = True"
| "task_done (ClearTask _ _ _ (CDone _)) = True"
| "task_done _ = False"

section \<open>Interleaving\<close>

text \<open>
  Any unfinished permission request may take its next step: the
  interleaving of \<open>Scheduler\<close> over \<open>task_step\<close>.
\<close>

abbreviation istep :: "config \<Rightarrow> config \<Rightarrow> bool" where
  "istep \<equiv> interleave task_step"

section \<open>Requests and the atomic reading\<close>

datatype request =
    AddReq string string string "string list"
  | ClearReq string string string

fun fresh :: "request \<Rightarrow> task" where
  "fresh (AddReq u a c p) = AddTask u a c p AFresh"
| "fresh (ClearReq md a b) = ClearTask md a b CFresh"

fun finished :: "request \<Rightarrow> response \<Rightarrow> task" where
  "finished (AddReq u a c p) r = AddTask u a c p (ADone r)"
| "finished (ClearReq md a b) r = ClearTask md a b (CDone r)"

text \<open>A request run alone: the functions of \<open>Permissions\<close>; a throw writes nothing.\<close>

fun atomic :: "request \<Rightarrow> db \<Rightarrow> response \<times> db" where
  "atomic (AddReq u a c p) s =
     (case addPermissions u a c p s of Inl e \<Rightarrow> (Threw e, s) | Inr s' \<Rightarrow> (AddReturned, s'))"
| "atomic (ClearReq md a b) s =
     (case clearPermissions md a b s of Inl e \<Rightarrow> (Threw e, s) | Inr (r, s') \<Rightarrow> (ClearReturned r, s'))"

section \<open>Measures and invariants\<close>

text \<open>Steps a task has left: at most three queries per request.\<close>

fun task_weight :: "task \<Rightarrow> nat" where
  "task_weight (AddTask _ _ _ _ AFresh) = 3"
| "task_weight (AddTask _ _ _ _ AOwned) = 2"
| "task_weight (AddTask _ _ _ _ (APlanned _)) = 1"
| "task_weight (AddTask _ _ _ _ (ADone _)) = 0"
| "task_weight (ClearTask _ _ _ CFresh) = 3"
| "task_weight (ClearTask _ _ _ (CFound _)) = 2"
| "task_weight (ClearTask _ _ _ (CPlanned _ _)) = 1"
| "task_weight (ClearTask _ _ _ (CDone _)) = 0"

definition decodes :: "string \<Rightarrow> bool" where
  "decodes v = (case decode v of Inl _ \<Rightarrow> False | Inr _ \<Rightarrow> True)"

definition store_decodes :: "db \<Rightarrow> bool" where
  "store_decodes s = list_all (\<lambda>r. decodes (up_permissions r)) (user_permissions s)"

text \<open>A planned clear writes a value that decodes.\<close>

fun task_decodes :: "task \<Rightarrow> bool" where
  "task_decodes (ClearTask _ _ _ (CPlanned _ v)) = decodes v"
| "task_decodes _ = True"

text \<open>A planned INSERT carries the key of its request.\<close>

fun plan_key_ok :: "task \<Rightarrow> bool" where
  "plan_key_ok (AddTask u a _ _ (APlanned (AddInsert r))) = (ap_key r = (u, a))"
| "plan_key_ok _ = True"

text \<open>Grants to key \<open>k\<close> that may still INSERT.\<close>

fun pending_grant :: "string \<times> string \<Rightarrow> task \<Rightarrow> nat" where
  "pending_grant k (AddTask u a _ _ (ADone _)) = 0"
| "pending_grant k (AddTask u a _ _ _) = (if (u, a) = k then 1 else 0)"
| "pending_grant k (ClearTask _ _ _ _) = 0"

fun grants :: "string \<times> string \<Rightarrow> request \<Rightarrow> bool" where
  "grants k (AddReq u a _ _) = ((u, a) = k)"
| "grants k (ClearReq _ _ _) = False"

definition key_rows :: "string \<times> string \<Rightarrow> db \<Rightarrow> nat" where
  "key_rows k s = length (filter (\<lambda>r. ap_key r = k) (account_permissions s))"


section \<open>A scenario store\<close>

text \<open>Account n1 owns username alice; bob holds blog:read and docs:write from n1.\<close>

definition race_db :: db where
  "race_db =
     \<lparr>account = [\<lparr>network_id = ''n1'', acc_username = ''alice'', acc_domain = None,
                   acc_about = [], acc_enabled = False\<rparr>],
      scuttlespace_user = [\<lparr>network_id = ''n1'', acc_username = ''alice'', acc_domain = None,
                   acc_about = [], acc_enabled = False\<rparr>],
      account_permissions = [],
      user_permissions = [\<lparr>up_assignee_external_id = ''bob'', up_assigner_external_id = ''n1'',
                   up_permissions = ''blog:read,docs:write''\<rparr>]\<rparr>"

section \<open>Steps, weights and runs\<close>

lemma task_step_returns: "step_returns task_step task_done"
  unfolding step_returns_def
proof (intro allI)
  fix t s show "task_step t s = None \<longleftrightarrow> task_done t"
    by (cases t rule: task_done.cases) (auto simp: Let_def split: option.splits sum.splits)
qed

lemma task_step_lowers: "step_lowers task_step task_weight"
  unfolding step_lowers_def
proof (intro allI impI)
  fix t s t' s' assume "task_step t s = Some (t', s')"
  then show "task_weight t' < task_weight t"
    by (cases t rule: task_weight.cases)
       (auto simp: Let_def add_finish_def split: option.splits sum.splits if_splits)
qed

lemma add_task_run:
  "task_run task_step (AddTask u a c p AFresh) s (AddTask u a c p (fst (add_finish (addPermissions_read u a c p s) s)))
     (snd (add_finish (addPermissions_read u a c p s) s))"
proof (cases "addPermissions_check u c s")
  case None
  let ?pl = "addPermissions_plan u a p s"
  have run: "task_run task_step (AddTask u a c p AOwned) s
      (AddTask u a c p (fst (add_finish ?pl s))) (snd (add_finish ?pl s))"
  proof (cases "add_writes ?pl")
    case True
    have pl: "task_run task_step (AddTask u a c p (APlanned ?pl)) s
        (AddTask u a c p (fst (add_finish ?pl s))) (snd (add_finish ?pl s))"
      by (rule task_run.run_step [OF _ task_run.run_refl]) (simp add: apfst_fst_snd)
    show ?thesis by (rule task_run.run_step [OF _ pl]) (simp add: True Let_def)
  next
    case False
    show ?thesis
      by (rule task_run.run_step [OF _ task_run.run_refl]) (simp add: False Let_def apfst_fst_snd)
  qed
  show ?thesis
    unfolding addPermissions_read_def None option.case
    by (rule task_run.run_step [OF _ run]) (simp add: None)
next
  case (Some pl)
  show ?thesis
    unfolding addPermissions_read_def Some option.case
    by (rule task_run.run_step [OF _ task_run.run_refl]) (simp add: Some apfst_fst_snd)
qed

lemma clear_task_run:
  "task_run task_step (ClearTask md a b CFresh) s
     (ClearTask md a b (CDone (case clearPermissions md a b s of Inl e \<Rightarrow> Threw e | Inr (r, _) \<Rightarrow> ClearReturned r)))
     (case clearPermissions md a b s of Inl _ \<Rightarrow> s | Inr (_, s') \<Rightarrow> s')"
proof (cases "parseServiceResult (findUser \<lparr>args_domain = None, args_externalId = Some b, args_username = None\<rparr> s)")
  case (Inl e)
  show ?thesis
    by (rule task_run.run_step [OF _ task_run.run_refl]) (simp add: Inl clearPermissions_def)
next
  case (Inr mu)
  note fu = Inr
  show ?thesis
  proof (cases mu)
    case None
    show ?thesis
      by (rule task_run.run_step [OF _ task_run.run_refl]) (simp add: fu None clearPermissions_def)
  next
    case (Some user)
    have found: "task_run task_step (ClearTask md a b (CFound user)) s
       (ClearTask md a b (CDone (case clearPermissions md a b s of Inl e \<Rightarrow> Threw e | Inr (r, _) \<Rightarrow> ClearReturned r)))
       (case clearPermissions md a b s of Inl _ \<Rightarrow> s | Inr (_, s') \<Rightarrow> s')"
    proof (cases "parseServiceResult (getPermissionsForUser a b s)")
      case (Inl e)
      show ?thesis
        by (rule task_run.run_step [OF _ task_run.run_refl]) (simp add: fu Some Inl clearPermissions_def)
    next
      case (Inr mp)
      show ?thesis
      proof (cases mp)
        case None
        show ?thesis
          by (rule task_run.run_step [OF _ task_run.run_refl])
             (simp add: fu \<open>mu = Some user\<close> Inr None clearPermissions_def)
      next
        case (Some p)
        let ?v = "encode (filter (\<lambda>x. module x \<noteq> md) (permissions p))"
        have planned: "task_run task_step (ClearTask md a b (CPlanned user ?v)) s
          (ClearTask md a b (CDone (ClearReturned (ValidResult \<lparr>cleared_username = username user\<rparr>))))
          (clearPermissions_write a b (Some ?v) s)"
          by (rule task_run.run_step [OF _ task_run.run_refl]) simp
        show ?thesis
          using planned
          by (simp add: fu \<open>mu = Some user\<close> Inr Some clearPermissions_def clearPermissions_write_def
              task_run.run_step)
      qed
    qed
    show ?thesis by (rule task_run.run_step [OF _ found]) (simp add: fu Some)
  qed
qed

lemma atomic_task_run:
  "task_run task_step (fresh r) s (finished r (fst (atomic r s))) (snd (atomic r s))"
proof (cases r)
  case (AddReq u a c p)
  then show ?thesis using add_task_run [of u a c p s]
    by (simp add: addPermissions_split addPermissions_read_def add_finish_def split: sum.splits option.splits)
next
  case (ClearReq md a b)
  then show ?thesis using clear_task_run [of md a b s] by (simp split: sum.splits prod.splits)
qed

lemma addPermissions_check_no_write:
  "addPermissions_check u c s = Some pl \<Longrightarrow> \<not> add_writes pl"
  by (auto simp: addPermissions_check_def Let_def split: if_splits sum.splits)

lemma addPermissions_plan_key:
  "addPermissions_plan u a p s = AddInsert r \<Longrightarrow> ap_key r = (u, a)"
  by (auto simp: addPermissions_plan_def Let_def split: if_splits sum.splits)

lemma add_finish_tables:
  "add_finish pl s = (ph, s') \<Longrightarrow>
   account s' = account s \<and> scuttlespace_user s' = scuttlespace_user s \<and>
   user_permissions s' = user_permissions s"
  by (cases pl) (auto simp: add_finish_def)

lemma add_finish_no_write:
  "\<not> add_writes pl \<Longrightarrow> add_finish pl s = (ph, s') \<Longrightarrow> s' = s"
  by (cases pl) (auto simp: add_finish_def)

lemma add_finish_key_rows:
  "add_finish pl s = (ph, s') \<Longrightarrow>
   key_rows k s' \<le> key_rows k s + (case pl of AddInsert r \<Rightarrow> if ap_key r = k then 1 else 0 | _ \<Rightarrow> 0)"
  by (cases pl) (auto simp: add_finish_def key_rows_def insert_row_def length_filter_update_rows)

lemma add_step_tables:
  "add_step u a c p ph s = Some (ph', s') \<Longrightarrow>
   account s' = account s \<and> scuttlespace_user s' = scuttlespace_user s \<and>
   user_permissions s' = user_permissions s"
  by (cases ph) (auto simp: Let_def dest: add_finish_tables sym split: option.splits if_splits)

lemma clear_step_tables:
  "clear_step md a b ph s = Some (ph', s') \<Longrightarrow>
   account s' = account s \<and> scuttlespace_user s' = scuttlespace_user s \<and>
   account_permissions s' = account_permissions s \<and>
   map up_key (user_permissions s') = map up_key (user_permissions s)"
  by (cases ph) (auto simp: clearPermissions_write_def map_update_rows_keep split: option.splits sum.splits)

lemma clear_value_decodes:
  assumes "getPermissionsForUser a b s = Inr (ValidResult (Some p))"
  shows "decodes (encode (filter (\<lambda>x. module x \<noteq> md) (permissions p)))"
proof -
  obtain r :: up_row where "decode (up_permissions r) = Inr (permissions p)"
    using getPermissionsForUser_Some [OF assms] by blast
  then have "\<forall>x \<in> set (filter (\<lambda>x. module x \<noteq> md) (permissions p)). wf_perm x"
    using decode_wf by auto
  then show ?thesis by (simp add: decodes_def decode_encode_sorted)
qed

lemma clear_step_decodes:
  assumes "clear_step md a b ph s = Some (ph', s')" and "store_decodes s"
    and "task_decodes (ClearTask md a b ph)"
  shows "store_decodes s' \<and> task_decodes (ClearTask md a b ph')"
proof (cases ph)
  case (CFound user)
  with assms show ?thesis
    by (auto simp: parseServiceResult_Inr_iff dest: clear_value_decodes split: sum.splits option.splits)
next
  case (CPlanned user v)
  with assms show ?thesis
    by (auto simp: store_decodes_def clearPermissions_write_def intro!: list_all_update_rows)
qed (use assms in \<open>auto split: sum.splits option.splits\<close>)

lemma task_step_decodes:
  "task_step t s = Some (t', s') \<Longrightarrow> store_decodes s \<Longrightarrow> task_decodes t \<Longrightarrow>
   store_decodes s' \<and> task_decodes t'"
proof (cases t)
  case (AddTask u a c p ph)
  then show "task_step t s = Some (t', s') \<Longrightarrow> store_decodes s \<Longrightarrow> task_decodes t \<Longrightarrow> ?thesis"
    by (auto simp: store_decodes_def dest: add_step_tables)
next
  case (ClearTask md a b ph)
  then show "task_step t s = Some (t', s') \<Longrightarrow> store_decodes s \<Longrightarrow> task_decodes t \<Longrightarrow> ?thesis"
    by (auto dest: clear_step_decodes)
qed

lemma task_step_tables:
  "task_step t s = Some (t', s') \<Longrightarrow>
   account s' = account s \<and> scuttlespace_user s' = scuttlespace_user s \<and>
   map up_key (user_permissions s') = map up_key (user_permissions s)"
  by (cases t) (auto dest: add_step_tables clear_step_tables)

lemma add_step_key_rows:
  assumes "add_step u a c p ph s = Some (ph', s')" and "plan_key_ok (AddTask u a c p ph)"
  shows "plan_key_ok (AddTask u a c p ph') \<and>
    key_rows k s' + pending_grant k (AddTask u a c p ph') \<le> key_rows k s + pending_grant k (AddTask u a c p ph)"
proof (cases ph)
  case AFresh
  show ?thesis
  proof (cases "addPermissions_check u c s")
    case None with assms(1) AFresh show ?thesis by auto
  next
    case (Some pl)
    with assms(1) AFresh have f: "add_finish pl s = (ph', s')" by simp
    have "s' = s" by (rule add_finish_no_write [OF addPermissions_check_no_write [OF Some] f])
    with f show ?thesis by (auto simp: add_finish_def split: sum.splits)
  qed
next
  case AOwned
  let ?pl = "addPermissions_plan u a p s"
  show ?thesis
  proof (cases "add_writes ?pl")
    case True
    have "ph' = APlanned ?pl \<and> s' = s" using assms(1) AOwned True by (auto simp: Let_def)
    then show ?thesis using AOwned addPermissions_plan_key [of u a p s]
      by (cases ?pl) auto
  next
    case False
    with assms(1) AOwned have f: "add_finish ?pl s = (ph', s')" by (simp add: Let_def)
    have "s' = s" by (rule add_finish_no_write [OF False f])
    with f show ?thesis by (auto simp: add_finish_def split: sum.splits)
  qed
next
  case (APlanned pl)
  with assms(1) have f: "add_finish pl s = (ph', s')" by simp
  then have fin: "\<exists>r. ph' = ADone r" by (auto simp: add_finish_def split: sum.splits)
  have "key_rows k s' \<le> key_rows k s + (case pl of AddInsert r \<Rightarrow> if ap_key r = k then 1 else 0 | _ \<Rightarrow> 0)"
    by (rule add_finish_key_rows [OF f])
  with fin APlanned assms(2) show ?thesis by (cases pl) auto
next
  case (ADone r)
  with assms(1) show ?thesis by simp
qed

lemma task_step_key_rows:
  "task_step t s = Some (t', s') \<Longrightarrow> plan_key_ok t \<Longrightarrow>
   plan_key_ok t' \<and> key_rows k s' + pending_grant k t' \<le> key_rows k s + pending_grant k t"
proof (cases t)
  case (AddTask u a c p ph)
  then show "task_step t s = Some (t', s') \<Longrightarrow> plan_key_ok t \<Longrightarrow> ?thesis"
    by (auto dest: add_step_key_rows)
next
  case (ClearTask md a b ph)
  then show "task_step t s = Some (t', s') \<Longrightarrow> plan_key_ok t \<Longrightarrow> ?thesis"
    by (auto simp: key_rows_def dest!: clear_step_tables)
qed

lemma task_step_keeps_frame:
  "step_keeps task_step
     (\<lambda>s'. account s' = account s \<and> scuttlespace_user s' = scuttlespace_user s \<and>
        map up_key (user_permissions s') = map up_key (user_permissions s))
     (\<lambda>_. True)"
  unfolding step_keeps_def by (metis task_step_tables)

lemma task_step_keeps_decodes: "step_keeps task_step store_decodes task_decodes"
  unfolding step_keeps_def using task_step_decodes by blast

lemma task_step_counts: "step_counts task_step plan_key_ok (key_rows k) (pending_grant k)"
  unfolding step_counts_def using task_step_key_rows by blast

lemma fresh_ok [simp]:
  "task_decodes (fresh r)" "plan_key_ok (fresh r)" "\<not> task_done (fresh r)"
  "pending_grant k (fresh r) = (if grants k r then 1 else 0)"
  by (cases r; simp)+

lemma pending_fresh: "sum_list (map (pending_grant k \<circ> fresh) rs) = length (filter (grants k) rs)"
  by (induction rs) simp_all

lemma add_read_write_split:
  "\<exists>ph. task_run task_step (AddTask u a c p AFresh) s (AddTask u a c p ph) s \<and>
     (\<forall>s1. \<exists>ph'. task_run task_step (AddTask u a c p ph) s1 (AddTask u a c p ph')
        (store_after (addPermissions_write (addPermissions_read u a c p s) s1) s1))"
proof -
  let ?pl = "addPermissions_read u a c p s"
  have rd: "task_run task_step (AddTask u a c p AFresh) s
      (AddTask u a c p (if add_writes ?pl then APlanned ?pl else fst (add_finish ?pl s))) s"
  proof (cases "addPermissions_check u c s")
    case None
    let ?q = "addPermissions_plan u a p s"
    have pl: "?pl = ?q" by (simp add: addPermissions_read_def None)
    have owned: "task_run task_step (AddTask u a c p AOwned) s
        (AddTask u a c p (if add_writes ?q then APlanned ?q else fst (add_finish ?q s))) s"
    proof (cases "add_writes ?q")
      case True
      show ?thesis by (rule task_run.run_step [OF _ task_run.run_refl]) (simp add: True Let_def)
    next
      case False
      have "snd (add_finish ?q s) = s" using add_finish_no_write [OF False] by (metis prod.collapse)
      then show ?thesis
        by (intro task_run.run_step [OF _ task_run.run_refl]) (simp add: False Let_def apfst_fst_snd)
    qed
    show ?thesis unfolding pl by (rule task_run.run_step [OF _ owned]) (simp add: None)
  next
    case (Some q)
    have pl: "?pl = q" by (simp add: addPermissions_read_def Some)
    have nw: "\<not> add_writes q" by (rule addPermissions_check_no_write [OF Some])
    have "snd (add_finish q s) = s" using add_finish_no_write [OF nw] by (metis prod.collapse)
    then show ?thesis unfolding pl
      by (intro task_run.run_step [OF _ task_run.run_refl]) (simp add: Some nw apfst_fst_snd)
  qed
  have wr: "\<exists>ph'. task_run task_step (AddTask u a c p (if add_writes ?pl then APlanned ?pl else fst (add_finish ?pl s))) s1
      (AddTask u a c p ph') (store_after (addPermissions_write ?pl s1) s1)" for s1
  proof (cases "add_writes ?pl")
    case True
    have "task_run task_step (AddTask u a c p (APlanned ?pl)) s1 (AddTask u a c p (fst (add_finish ?pl s1)))
        (snd (add_finish ?pl s1))"
      by (rule task_run.run_step [OF _ task_run.run_refl]) (simp add: apfst_fst_snd)
    moreover have "snd (add_finish ?pl s1) = store_after (addPermissions_write ?pl s1) s1"
      by (simp add: add_finish_def store_after_def split: sum.splits)
    ultimately show ?thesis using True by auto
  next
    case False
    then have "store_after (addPermissions_write ?pl s1) s1 = s1"
      by (cases ?pl) (simp_all add: store_after_def)
    then show ?thesis using False task_run.run_refl [of task_step] by auto
  qed
  from rd wr show ?thesis by blast
qed

lemmas clear_eval_simps = findUser_def getUserByExternalId_def getPermissionsForUser_def
  select_rows_def singleOrNone_def decode_def parse_token_def encode_def perm_token_def
  update_rows_def clearPermissions_write_def

lemma race_clear_run:
  "run_sched task_step [0, 1, 0, 1, 0, 1] (race_db, map fresh [ClearReq ''docs'' ''bob'' ''n1'', ClearReq ''blog'' ''bob'' ''n1'']) =
   Some (race_db\<lparr>user_permissions := [\<lparr>up_assignee_external_id = ''bob'', up_assigner_external_id = ''n1'', up_permissions = ''docs:write''\<rparr>]\<rparr>,
      [ClearTask ''docs'' ''bob'' ''n1'' (CDone (ClearReturned (ValidResult \<lparr>cleared_username = ''alice''\<rparr>))), ClearTask ''blog'' ''bob'' ''n1'' (CDone (ClearReturned (ValidResult \<lparr>cleared_username = ''alice''\<rparr>)))])"
  by (simp add: race_db_def clear_eval_simps)

lemma race_grant_run:
  "run_sched task_step [0, 1, 0, 1, 0, 1] (race_db, map fresh [AddReq ''alice'' ''bob'' ''n1'' [''docs:write''], AddReq ''alice'' ''bob'' ''n1'' [''blog:read'']]) =
   Some (race_db\<lparr>account_permissions := [\<lparr>ap_network_id = ''bob'', ap_permissions = ''docs:write'', ap_username = ''alice''\<rparr>, \<lparr>ap_network_id = ''bob'', ap_permissions = ''blog:read'', ap_username = ''alice''\<rparr>]\<rparr>,
      [AddTask ''alice'' ''bob'' ''n1'' [''docs:write''] (ADone AddReturned),
       AddTask ''alice'' ''bob'' ''n1'' [''blog:read''] (ADone AddReturned)])"
  by (simp add: race_db_def addPermissions_check_def addPermissions_plan_def select_rows_def
      add_finish_def insert_row_def)

section \<open>Properties of the interleaving semantics\<close>

text \<open>
  Serial execution is a behaviour of the interleaving semantics and
  refines to the atomic functions. Running the requests one after another,
  each to its return, is a run whose final store and responses are those of
  \<open>addPermissions\<close> and \<open>clearPermissions\<close> applied in sequence.
\<close>

theorem serial_schedule:
  "istep\<^sup>*\<^sup>* (s, map fresh rs) (snd (serial atomic rs s), map2 finished rs (fst (serial atomic rs s)))"
  using serial_interleave [where step = task_step and fresh = fresh and fin = finished and f = atomic,
      OF atomic_task_run, of s "[]" rs]
  by simp


text \<open>
  C17: under any interleaving of permission requests the tables account and
  scuttlespace_user are unchanged and user_permissions keeps its keys, in
  order: no row of it is created, deleted or re-keyed.
\<close>

theorem interleaving_frame:
  "istep\<^sup>*\<^sup>* (s, ts) (s', ts') \<Longrightarrow>
   account s' = account s \<and> scuttlespace_user s' = scuttlespace_user s \<and>
   map up_key (user_permissions s') = map up_key (user_permissions s)"
  using interleave_invariant [OF task_step_keeps_frame [of s], of s ts s' ts'] by (simp add: list_all_iff)


theorem interleaving_frame_witness:
  "istep\<^sup>*\<^sup>* (race_db, map fresh [ClearReq ''docs'' ''bob'' ''n1'', ClearReq ''blog'' ''bob'' ''n1''])
     (race_db\<lparr>user_permissions := [\<lparr>up_assignee_external_id = ''bob'', up_assigner_external_id = ''n1'', up_permissions = ''docs:write''\<rparr>]\<rparr>,
      [ClearTask ''docs'' ''bob'' ''n1'' (CDone (ClearReturned (ValidResult \<lparr>cleared_username = ''alice''\<rparr>))), ClearTask ''blog'' ''bob'' ''n1'' (CDone (ClearReturned (ValidResult \<lparr>cleared_username = ''alice''\<rparr>)))]) \<and>
   account (race_db\<lparr>user_permissions := [\<lparr>up_assignee_external_id = ''bob'', up_assigner_external_id = ''n1'', up_permissions = ''docs:write''\<rparr>]\<rparr>) = account race_db \<and>
   map up_key (user_permissions (race_db\<lparr>user_permissions := [\<lparr>up_assignee_external_id = ''bob'', up_assigner_external_id = ''n1'', up_permissions = ''docs:write''\<rparr>]\<rparr>)) =
     map up_key (user_permissions race_db)"
proof -
  have r: "istep\<^sup>*\<^sup>* (race_db, map fresh [ClearReq ''docs'' ''bob'' ''n1'', ClearReq ''blog'' ''bob'' ''n1''])
     (race_db\<lparr>user_permissions := [\<lparr>up_assignee_external_id = ''bob'', up_assigner_external_id = ''n1'', up_permissions = ''docs:write''\<rparr>]\<rparr>,
      [ClearTask ''docs'' ''bob'' ''n1'' (CDone (ClearReturned (ValidResult \<lparr>cleared_username = ''alice''\<rparr>))), ClearTask ''blog'' ''bob'' ''n1'' (CDone (ClearReturned (ValidResult \<lparr>cleared_username = ''alice''\<rparr>)))])"
    by (rule run_sched_interleave [OF race_clear_run])
  show ?thesis using r interleaving_frame [OF r] by simp
qed

text \<open>
  C16: the permissions column keeps its type under any interleaving. If every
  stored user_permissions string decodes when the requests start, every one
  decodes at the end: concurrent clears may lose an update but never store a
  malformed value.
\<close>

theorem interleaving_decodes:
  "istep\<^sup>*\<^sup>* (s, map fresh rs) (s', ts') \<Longrightarrow> store_decodes s \<Longrightarrow> store_decodes s'"
proof -
  assume run: "istep\<^sup>*\<^sup>* (s, map fresh rs) (s', ts')" and sd: "store_decodes s"
  have "list_all task_decodes (map fresh rs)" by (simp add: list_all_iff)
  with run sd show ?thesis using interleave_invariant [OF task_step_keeps_decodes] by blast
qed


theorem interleaving_decodes_witness:
  "istep\<^sup>*\<^sup>* (race_db, map fresh [ClearReq ''docs'' ''bob'' ''n1'', ClearReq ''blog'' ''bob'' ''n1''])
     (race_db\<lparr>user_permissions := [\<lparr>up_assignee_external_id = ''bob'', up_assigner_external_id = ''n1'', up_permissions = ''docs:write''\<rparr>]\<rparr>,
      [ClearTask ''docs'' ''bob'' ''n1'' (CDone (ClearReturned (ValidResult \<lparr>cleared_username = ''alice''\<rparr>))), ClearTask ''blog'' ''bob'' ''n1'' (CDone (ClearReturned (ValidResult \<lparr>cleared_username = ''alice''\<rparr>)))]) \<and>
   store_decodes race_db \<and>
   store_decodes (race_db\<lparr>user_permissions := [\<lparr>up_assignee_external_id = ''bob'', up_assigner_external_id = ''n1'', up_permissions = ''docs:write''\<rparr>]\<rparr>)"
proof -
  have r: "istep\<^sup>*\<^sup>* (race_db, map fresh [ClearReq ''docs'' ''bob'' ''n1'', ClearReq ''blog'' ''bob'' ''n1''])
     (race_db\<lparr>user_permissions := [\<lparr>up_assignee_external_id = ''bob'', up_assigner_external_id = ''n1'', up_permissions = ''docs:write''\<rparr>]\<rparr>,
      [ClearTask ''docs'' ''bob'' ''n1'' (CDone (ClearReturned (ValidResult \<lparr>cleared_username = ''alice''\<rparr>))), ClearTask ''blog'' ''bob'' ''n1'' (CDone (ClearReturned (ValidResult \<lparr>cleared_username = ''alice''\<rparr>)))])"
    by (rule run_sched_interleave [OF race_clear_run])
  have d: "store_decodes race_db"
    by (simp add: store_decodes_def decodes_def race_db_def decode_def parse_token_def)
  show ?thesis using r d interleaving_decodes [OF r d] by simp
qed

text \<open>
  C15: duplicates are bounded by concurrent grants. Under any interleaving the
  account_permissions rows with key k grow by at most the number of
  \<open>addPermissions\<close> requests for k; two grants whose reads both come first
  reach the bound.
\<close>

theorem grant_rows_bound:
  "istep\<^sup>*\<^sup>* (s, map fresh rs) (s', ts') \<Longrightarrow>
   key_rows k s' \<le> key_rows k s + length (filter (grants k) rs)"
proof -
  assume run: "istep\<^sup>*\<^sup>* (s, map fresh rs) (s', ts')"
  have "list_all plan_key_ok (map fresh rs)" by (simp add: list_all_iff)
  from interleave_counter [OF task_step_counts run this, of k] show ?thesis by (simp add: pending_fresh)
qed




theorem grant_rows_bound_witness:
  "istep\<^sup>*\<^sup>* (race_db, map fresh [AddReq ''alice'' ''bob'' ''n1'' [''docs:write''], AddReq ''alice'' ''bob'' ''n1'' [''blog:read'']])
     (race_db\<lparr>account_permissions := [\<lparr>ap_network_id = ''bob'', ap_permissions = ''docs:write'', ap_username = ''alice''\<rparr>, \<lparr>ap_network_id = ''bob'', ap_permissions = ''blog:read'', ap_username = ''alice''\<rparr>]\<rparr>,
      [AddTask ''alice'' ''bob'' ''n1'' [''docs:write''] (ADone AddReturned),
       AddTask ''alice'' ''bob'' ''n1'' [''blog:read''] (ADone AddReturned)]) \<and>
   key_rows (''alice'', ''bob'') (race_db\<lparr>account_permissions := [\<lparr>ap_network_id = ''bob'', ap_permissions = ''docs:write'', ap_username = ''alice''\<rparr>, \<lparr>ap_network_id = ''bob'', ap_permissions = ''blog:read'', ap_username = ''alice''\<rparr>]\<rparr>) \<le>
     key_rows (''alice'', ''bob'') race_db + length (filter (grants (''alice'', ''bob'')) [AddReq ''alice'' ''bob'' ''n1'' [''docs:write''], AddReq ''alice'' ''bob'' ''n1'' [''blog:read'']]) \<and>
   key_rows (''alice'', ''bob'') (race_db\<lparr>account_permissions := [\<lparr>ap_network_id = ''bob'', ap_permissions = ''docs:write'', ap_username = ''alice''\<rparr>, \<lparr>ap_network_id = ''bob'', ap_permissions = ''blog:read'', ap_username = ''alice''\<rparr>]\<rparr>) = 2 \<and>
   key_rows (''alice'', ''bob'') race_db + length (filter (grants (''alice'', ''bob'')) [AddReq ''alice'' ''bob'' ''n1'' [''docs:write''], AddReq ''alice'' ''bob'' ''n1'' [''blog:read'']]) = 2"
proof -
  have r: "istep\<^sup>*\<^sup>* (race_db, map fresh [AddReq ''alice'' ''bob'' ''n1'' [''docs:write''], AddReq ''alice'' ''bob'' ''n1'' [''blog:read'']])
     (race_db\<lparr>account_permissions := [\<lparr>ap_network_id = ''bob'', ap_permissions = ''docs:write'', ap_username = ''alice''\<rparr>, \<lparr>ap_network_id = ''bob'', ap_permissions = ''blog:read'', ap_username = ''alice''\<rparr>]\<rparr>,
      [AddTask ''alice'' ''bob'' ''n1'' [''docs:write''] (ADone AddReturned),
       AddTask ''alice'' ''bob'' ''n1'' [''blog:read''] (ADone AddReturned)])"
    by (rule run_sched_interleave [OF race_grant_run])
  show ?thesis using r grant_rows_bound [OF r, of "(''alice'', ''bob'')"]
    by (simp add: key_rows_def race_db_def)
qed

text \<open>
  The two-request schedule of \<open>Concurrency\<close>, both reads before both
  writes, is a run of the interleaving semantics: the duplicate rows of
  \<open>concurrent_add\<close> arise under the general scheduler.
\<close>

theorem concurrent_add_is_run:
  "\<exists>ts. istep\<^sup>*\<^sup>* (s, [AddTask u1 a1 c1 p1 AFresh, AddTask u2 a2 c2 p2 AFresh])
     (concurrent_add (u1, a1, c1, p1) (u2, a2, c2, p2) s, ts)"
proof -
  obtain ph1 where r1: "task_run task_step (AddTask u1 a1 c1 p1 AFresh) s (AddTask u1 a1 c1 p1 ph1) s"
    and w1: "\<And>s1. \<exists>ph'. task_run task_step (AddTask u1 a1 c1 p1 ph1) s1 (AddTask u1 a1 c1 p1 ph')
        (store_after (addPermissions_write (addPermissions_read u1 a1 c1 p1 s) s1) s1)"
    using add_read_write_split by blast
  obtain ph2 where r2: "task_run task_step (AddTask u2 a2 c2 p2 AFresh) s (AddTask u2 a2 c2 p2 ph2) s"
    and w2: "\<And>s1. \<exists>ph'. task_run task_step (AddTask u2 a2 c2 p2 ph2) s1 (AddTask u2 a2 c2 p2 ph')
        (store_after (addPermissions_write (addPermissions_read u2 a2 c2 p2 s) s1) s1)"
    using add_read_write_split by blast
  let ?s1 = "store_after (addPermissions_write (addPermissions_read u1 a1 c1 p1 s) s) s"
  let ?s2 = "store_after (addPermissions_write (addPermissions_read u2 a2 c2 p2 s) ?s1) ?s1"
  obtain ph1' where w1': "task_run task_step (AddTask u1 a1 c1 p1 ph1) s (AddTask u1 a1 c1 p1 ph1') ?s1"
    using w1 by blast
  obtain ph2' where w2': "task_run task_step (AddTask u2 a2 c2 p2 ph2) ?s1 (AddTask u2 a2 c2 p2 ph2') ?s2"
    using w2 by blast
  let ?A = "\<lambda>ph. AddTask u1 a1 c1 p1 ph" and ?B = "\<lambda>ph. AddTask u2 a2 c2 p2 ph"
  have "istep\<^sup>*\<^sup>* (s, [?A AFresh, ?B AFresh]) (s, [?A ph1, ?B AFresh])"
    using task_run_lift [OF r1, of 0 "[?A AFresh, ?B AFresh]"] by simp
  also have "istep\<^sup>*\<^sup>* \<dots> (s, [?A ph1, ?B ph2])"
    using task_run_lift [OF r2, of 1 "[?A ph1, ?B AFresh]"] by simp
  also have "istep\<^sup>*\<^sup>* \<dots> (?s1, [?A ph1', ?B ph2])"
    using task_run_lift [OF w1', of 0 "[?A ph1, ?B ph2]"] by simp
  also have "istep\<^sup>*\<^sup>* \<dots> (?s2, [?A ph1', ?B ph2'])"
    using task_run_lift [OF w2', of 1 "[?A ph1', ?B ph2]"] by simp
  finally show ?thesis by (auto simp: concurrent_add_def Let_def)
qed


lemma atomic_clear_found:
  assumes "parseServiceResult (findUser \<lparr>args_domain = None, args_externalId = Some b, args_username = None\<rparr> s) =
      Inr (Some user)"
    and "getPermissionsForUser a b s = Inr (ValidResult (Some p))"
  shows "atomic (ClearReq m a b) s =
    (ClearReturned (ValidResult \<lparr>cleared_username = username user\<rparr>),
     clearPermissions_write a b (Some (encode (filter (\<lambda>x. module x \<noteq> m) (permissions p)))) s)"
  using clearPermissions_read_found [OF assms] by (simp add: clearPermissions_two_phase)

lemma serial_clears:
  assumes u: "parseServiceResult (findUser \<lparr>args_domain = None, args_externalId = Some b, args_username = None\<rparr> s) =
      Inr (Some user)"
    and p: "getPermissionsForUser a b s = Inr (ValidResult (Some p))"
  shows "serial atomic [ClearReq m1 a b, ClearReq m2 a b] s =
    ([ClearReturned (ValidResult \<lparr>cleared_username = username user\<rparr>),
      ClearReturned (ValidResult \<lparr>cleared_username = username user\<rparr>)],
     clearPermissions_write a b (Some (encode (filter (\<lambda>x. module x \<noteq> m2)
       (sort_key perm_token (filter (\<lambda>x. module x \<noteq> m1) (permissions p)))))) s)"
proof -
  let ?s1 = "clearPermissions_write a b (Some (encode (filter (\<lambda>x. module x \<noteq> m1) (permissions p)))) s"
  have u1: "parseServiceResult (findUser \<lparr>args_domain = None, args_externalId = Some b, args_username = None\<rparr> ?s1) =
      Inr (Some user)" using u by simp
  have p1: "getPermissionsForUser a b ?s1 =
      Inr (ValidResult (Some \<lparr>permissions = sort_key perm_token (filter (\<lambda>x. module x \<noteq> m1) (permissions p))\<rparr>))"
    by (rule clearPermissions_write_readback [OF p])
  show ?thesis
    using atomic_clear_found [OF u p, of m1] atomic_clear_found [OF u1 p1, of m2]
    by (simp add: clearPermissions_write_twice)
qed

text \<open>
  C18: the interleaving semantics is not serializable. For any store where
  the assigner has a user and the pair's permissions read back with an entry
  of module \<open>m1\<close>, clears of \<open>m1\<close> and of another module \<open>m2\<close>,
  interleaved query by query, return what they return in either serial
  order, but leave a store that neither serial order produces.
\<close>

theorem interleaved_clears_not_serializable:
  assumes u: "parseServiceResult (findUser \<lparr>args_domain = None, args_externalId = Some b, args_username = None\<rparr> s) =
      Inr (Some user)"
    and p: "getPermissionsForUser a b s = Inr (ValidResult (Some p))"
    and m: "m1 \<noteq> m2" and x: "x \<in> set (permissions p)" "module x = m1"
  shows "\<exists>s'. run_sched task_step [0, 1, 0, 1, 0, 1] (s, map fresh [ClearReq m1 a b, ClearReq m2 a b]) =
      Some (s', [ClearTask m1 a b (CDone (ClearReturned (ValidResult \<lparr>cleared_username = username user\<rparr>))),
                 ClearTask m2 a b (CDone (ClearReturned (ValidResult \<lparr>cleared_username = username user\<rparr>)))]) \<and>
    fst (serial atomic [ClearReq m1 a b, ClearReq m2 a b] s) =
      [ClearReturned (ValidResult \<lparr>cleared_username = username user\<rparr>),
       ClearReturned (ValidResult \<lparr>cleared_username = username user\<rparr>)] \<and>
    fst (serial atomic [ClearReq m2 a b, ClearReq m1 a b] s) =
      [ClearReturned (ValidResult \<lparr>cleared_username = username user\<rparr>),
       ClearReturned (ValidResult \<lparr>cleared_username = username user\<rparr>)] \<and>
    s' \<noteq> snd (serial atomic [ClearReq m1 a b, ClearReq m2 a b] s) \<and>
    s' \<noteq> snd (serial atomic [ClearReq m2 a b, ClearReq m1 a b] s)"
proof -
  let ?w = "\<lambda>m ps. clearPermissions_write a b (Some (encode (filter (\<lambda>x. module x \<noteq> m) ps)))"
  let ?s' = "?w m2 (permissions p) s"
  have run: "run_sched task_step [0, 1, 0, 1, 0, 1] (s, map fresh [ClearReq m1 a b, ClearReq m2 a b]) =
      Some (?s', [ClearTask m1 a b (CDone (ClearReturned (ValidResult \<lparr>cleared_username = username user\<rparr>))),
                 ClearTask m2 a b (CDone (ClearReturned (ValidResult \<lparr>cleared_username = username user\<rparr>)))])"
    using u p by (simp add: clearPermissions_write_twice)
  have r': "getPermissionsForUser a b ?s' =
      Inr (ValidResult (Some \<lparr>permissions = sort_key perm_token (filter (\<lambda>x. module x \<noteq> m2) (permissions p))\<rparr>))"
    by (rule clearPermissions_write_readback [OF p])
  have differs: "?s' \<noteq> ?w m' (sort_key perm_token (filter (\<lambda>x. module x \<noteq> m) (permissions p))) s"
    if mm: "{m, m'} = {m1, m2}" for m m'
  proof
    let ?q = "\<lparr>permissions = sort_key perm_token (filter (\<lambda>x. module x \<noteq> m) (permissions p))\<rparr>"
    assume eq0: "?s' = ?w m' (sort_key perm_token (filter (\<lambda>x. module x \<noteq> m) (permissions p))) s"
    then have eq: "?s' = ?w m' (permissions ?q) s" by simp
    have "getPermissionsForUser a b (?w m (permissions p) s) = Inr (ValidResult (Some ?q))"
      by (rule clearPermissions_write_readback [OF p])
    then have "getPermissionsForUser a b (?w m' (permissions ?q) (?w m (permissions p) s)) =
        Inr (ValidResult (Some \<lparr>permissions = sort_key perm_token (filter (\<lambda>x. module x \<noteq> m') (permissions ?q))\<rparr>))"
      by (rule clearPermissions_write_readback)
    with eq r' have "sort_key perm_token (filter (\<lambda>x. module x \<noteq> m2) (permissions p)) =
        sort_key perm_token (filter (\<lambda>x. module x \<noteq> m') (sort_key perm_token (filter (\<lambda>x. module x \<noteq> m) (permissions p))))"
      by (simp add: clearPermissions_write_twice)
    moreover have "x \<in> set (sort_key perm_token (filter (\<lambda>x. module x \<noteq> m2) (permissions p)))"
      using x m by simp
    moreover have "x \<notin> set (sort_key perm_token (filter (\<lambda>x. module x \<noteq> m') (sort_key perm_token (filter (\<lambda>x. module x \<noteq> m) (permissions p)))))"
      using x mm by (auto simp: doubleton_eq_iff)
    ultimately show False by simp
  qed
  show ?thesis
    using run serial_clears [OF u p, of m1 m2] serial_clears [OF u p, of m2 m1]
      differs [of m1 m2] differs [of m2 m1] by auto
qed

theorem interleaved_clears_not_serializable_witness:
  "\<exists>s'. run_sched task_step [0, 1, 0, 1, 0, 1]
      (race_db, map fresh [ClearReq ''docs'' ''bob'' ''n1'', ClearReq ''blog'' ''bob'' ''n1'']) =
      Some (s', [ClearTask ''docs'' ''bob'' ''n1'' (CDone (ClearReturned (ValidResult \<lparr>cleared_username = ''alice''\<rparr>))),
                 ClearTask ''blog'' ''bob'' ''n1'' (CDone (ClearReturned (ValidResult \<lparr>cleared_username = ''alice''\<rparr>)))]) \<and>
    s' \<noteq> snd (serial atomic [ClearReq ''docs'' ''bob'' ''n1'', ClearReq ''blog'' ''bob'' ''n1''] race_db) \<and>
    s' \<noteq> snd (serial atomic [ClearReq ''blog'' ''bob'' ''n1'', ClearReq ''docs'' ''bob'' ''n1''] race_db)"
proof -
  let ?u = "\<lparr>about = [], domain = None, enabled = False, externalId = ''n1'', username = ''alice''\<rparr>"
  let ?p = "\<lparr>permissions = [\<lparr>module = ''blog'', permission = ''read''\<rparr>, \<lparr>module = ''docs'', permission = ''write''\<rparr>]\<rparr>"
  have u: "parseServiceResult (findUser \<lparr>args_domain = None, args_externalId = Some ''n1'', args_username = None\<rparr> race_db) =
      Inr (Some ?u)"
    by (simp add: race_db_def clear_eval_simps)
  have p: "getPermissionsForUser ''bob'' ''n1'' race_db = Inr (ValidResult (Some ?p))"
    by (simp add: race_db_def clear_eval_simps)
  have m: "''docs'' \<noteq> ''blog''" by simp
  have x: "\<lparr>module = ''docs'', permission = ''write''\<rparr> \<in> set (permissions ?p)" by simp
  have xm: "module \<lparr>module = ''docs'', permission = ''write''\<rparr> = ''docs''" by simp
  have un: "username ?u = ''alice''" by simp
  show ?thesis
    using interleaved_clears_not_serializable [OF u p m x xm] unfolding un by blast
qed

end
