(* ===== verification/Service_Races.thy ===== *)
theory Service_Races
  imports Interleaving Lifecycle
begin

text \<open>
  The whole service in flight. The lifecycle operations of
  src/src/modify-account.ts also await between their existence check and
  their write: \<open>editAbout\<close>, \<open>editDomain\<close>, \<open>editUsername\<close>, \<open>enable\<close> and
  \<open>disable\<close> run \<open>ensureAccountExists\<close> (a SELECT) and then one UPDATE;
  \<open>destroy\<close> runs \<open>ensureAccountExists\<close>, a second SELECT, and the DELETE.
  This theory splits them at those awaits, puts them beside the permission
  requests of \<open>Interleaving\<close> in one task type \<open>svc_task\<close>, and runs any
  number of them with the \<open>Scheduler\<close>. It proves that every step keeps the
  part of the schema invariant that holds under interleaving (the UNIQUE
  constraints of account, the keys of scuttlespace_user and user_permissions,
  decodable permission strings), that a single request runs to the atomic
  function of \<open>Lifecycle\<close> or \<open>Permissions\<close>, so that any serial
  execution of the service is a run of its interleaving, and two races of
  \<open>destroy\<close>: an account enabled between destroy's read and its DELETE is
  deleted, and two destroys of one account make the second read
  \<open>rows[0].enabled\<close> of a missing row and throw a \<open>TypeError\<close>.
\<close>

section \<open>Lifecycle requests split at their awaits\<close>

text \<open>The UPDATE each editor issues (modify-account.ts lines 40--46, 58--64, 76--82, 93--98, 109--114).\<close>

datatype lc_edit = SetAbout string | SetDomain string | SetUsername string | SetEnabled bool

fun edit_update :: "lc_edit \<Rightarrow> account_row \<Rightarrow> account_row" where
  "edit_update (SetAbout x) r = r\<lparr>acc_about := x\<rparr>"
| "edit_update (SetDomain x) r = r\<lparr>acc_domain := Some x\<rparr>"
| "edit_update (SetUsername x) r = r\<lparr>acc_username := x\<rparr>"
| "edit_update (SetEnabled b) r = r\<lparr>acc_enabled := b\<rparr>"

text \<open>The exported function each editor request calls.\<close>

fun edit_atomic :: "string \<Rightarrow> lc_edit \<Rightarrow> db \<Rightarrow> exn + unit service_result \<times> db" where
  "edit_atomic n (SetAbout x) s = editAbout x n s"
| "edit_atomic n (SetDomain x) s = editDomain x n s"
| "edit_atomic n (SetUsername x) s = editUsername x n s"
| "edit_atomic n (SetEnabled True) s = enable n s"
| "edit_atomic n (SetEnabled False) s = disable n s"

text \<open>What a lifecycle request returned.\<close>

datatype lc_response = LThrew exn | LReturned "unit service_result"

text \<open>An editor before its check, between check and UPDATE, returned.\<close>

datatype edit_phase = EFresh | EChecked | EDone lc_response

text \<open>\<open>destroy\<close> before its check, after it, with its DELETE decided, returned.\<close>

datatype destroy_phase = DFresh | DChecked | DDeleting | DDone lc_response

text \<open>\<open>await ensureAccountExists(networkId)\<close> as one step (lines 11--30).\<close>

definition check_step :: "string \<Rightarrow> 'p \<Rightarrow> ('p \<Rightarrow> 'q) \<Rightarrow> (lc_response \<Rightarrow> 'q) \<Rightarrow> db \<Rightarrow> 'q \<times> db" where
  "check_step n next ok fin s =
     (case ensureAccountExists n s of
        Inl e \<Rightarrow> (fin (LThrew e), s)
      | Inr _ \<Rightarrow> (ok next, s))"

fun edit_step :: "string \<Rightarrow> lc_edit \<Rightarrow> edit_phase \<Rightarrow> db \<Rightarrow> (edit_phase \<times> db) option" where
  "edit_step n e EFresh s = Some (check_step n EChecked id EDone s)"
| "edit_step n e EChecked s =
     Some (case update_account (\<lambda>r. network_id r = n) (edit_update e) s of
             Inl ex \<Rightarrow> (EDone (LThrew ex), s)
           | Inr s' \<Rightarrow> (EDone (LReturned (ValidResult ())), s'))"
| "edit_step n e (EDone r) s = None"

text \<open>\<open>destroy\<close> (lines 118--141): the check, the SELECT and its branch, the DELETE.\<close>

fun destroy_step :: "string \<Rightarrow> destroy_phase \<Rightarrow> db \<Rightarrow> (destroy_phase \<times> db) option" where
  "destroy_step n DFresh s = Some (check_step n DChecked id DDone s)"
| "destroy_step n DChecked s =
     Some (case select_rows (\<lambda>r. network_id r = n) (account s) of
             [] \<Rightarrow> (DDone (LThrew (TypeError ''Cannot read properties of undefined (reading 'enabled')'')), s)
           | r # _ \<Rightarrow>
               if \<not> acc_enabled r then (DDeleting, s)
               else (DDone (LReturned (ErrorResult CANNOT_DELETE_ACTIVE_ACCOUNT
                       ''An account in active status cannot be deleted.'')), s))"
| "destroy_step n DDeleting s =
     Some (DDone (LReturned (ValidResult ())),
           s\<lparr>account := delete_rows (\<lambda>r. network_id r = n) (account s)\<rparr>)"
| "destroy_step n (DDone r) s = None"

section \<open>The service as one kind of task\<close>

datatype svc_task =
    PermTask task
  | EditTask string lc_edit edit_phase
  | DestroyTask string destroy_phase

fun svc_step :: "svc_task \<Rightarrow> db \<Rightarrow> (svc_task \<times> db) option" where
  "svc_step (PermTask t) s = map_option (apfst PermTask) (task_step t s)"
| "svc_step (EditTask n e ph) s = map_option (apfst (EditTask n e)) (edit_step n e ph s)"
| "svc_step (DestroyTask n ph) s = map_option (apfst (DestroyTask n)) (destroy_step n ph s)"

fun svc_done :: "svc_task \<Rightarrow> bool" where
  "svc_done (PermTask t) = task_done t"
| "svc_done (EditTask _ _ (EDone _)) = True"
| "svc_done (DestroyTask _ (DDone _)) = True"
| "svc_done _ = False"

fun svc_weight :: "svc_task \<Rightarrow> nat" where
  "svc_weight (PermTask t) = task_weight t"
| "svc_weight (EditTask _ _ EFresh) = 2"
| "svc_weight (EditTask _ _ EChecked) = 1"
| "svc_weight (EditTask _ _ (EDone _)) = 0"
| "svc_weight (DestroyTask _ DFresh) = 3"
| "svc_weight (DestroyTask _ DChecked) = 2"
| "svc_weight (DestroyTask _ DDeleting) = 1"
| "svc_weight (DestroyTask _ (DDone _)) = 0"

datatype svc_req = PermReq request | EditReq string lc_edit | DestroyReq string

datatype svc_response = PResp response | LResp lc_response

fun svc_fresh :: "svc_req \<Rightarrow> svc_task" where
  "svc_fresh (PermReq r) = PermTask (fresh r)"
| "svc_fresh (EditReq n e) = EditTask n e EFresh"
| "svc_fresh (DestroyReq n) = DestroyTask n DFresh"

fun svc_finished :: "svc_req \<Rightarrow> svc_response \<Rightarrow> svc_task" where
  "svc_finished (PermReq r) (PResp x) = PermTask (finished r x)"
| "svc_finished (EditReq n e) (LResp x) = EditTask n e (EDone x)"
| "svc_finished (DestroyReq n) (LResp x) = DestroyTask n (DDone x)"
| "svc_finished r _ = svc_fresh r"

definition lc_result :: "exn + unit service_result \<times> db \<Rightarrow> db \<Rightarrow> svc_response \<times> db" where
  "lc_result x s = (case x of Inl e \<Rightarrow> (LResp (LThrew e), s) | Inr (r, s') \<Rightarrow> (LResp (LReturned r), s'))"

text \<open>A request run alone: the exported function; a throw writes nothing.\<close>

fun svc_atomic :: "svc_req \<Rightarrow> db \<Rightarrow> svc_response \<times> db" where
  "svc_atomic (PermReq r) s = apfst PResp (atomic r s)"
| "svc_atomic (EditReq n e) s = lc_result (edit_atomic n e s) s"
| "svc_atomic (DestroyReq n) s = lc_result (destroy n s) s"

section \<open>The invariant that survives interleaving\<close>

text \<open>
  The schema invariant without the key of account_permissions, which
  concurrent grants break (\<open>Interleaving.grant_rows_bound\<close>).
\<close>

definition svc_inv :: "db \<Rightarrow> bool" where
  "svc_inv s \<longleftrightarrow>
     account_unique (account s) \<and> distinct (map network_id (scuttlespace_user s)) \<and>
     distinct (map up_key (user_permissions s)) \<and> store_decodes s"

fun svc_task_ok :: "svc_task \<Rightarrow> bool" where
  "svc_task_ok (PermTask t) = task_decodes t"
| "svc_task_ok _ = True"

text \<open>A disabled account, the state the destroy races start from.\<close>

definition dormant :: account_row where
  "dormant = \<lparr>network_id = ''n1'', acc_username = ''alice'', acc_domain = None, acc_about = [],
     acc_enabled = False\<rparr>"

definition dormant_db :: db where
  "dormant_db = empty_db\<lparr>account := [dormant]\<rparr>"

section \<open>Lemmas\<close>

text \<open>Each step returns exactly when the task has returned, lowers the weight, and keeps \<open>svc_inv\<close>.\<close>

lemma svc_step_returns: "step_returns svc_step svc_done"
  unfolding step_returns_def
proof (intro allI)
  fix t s show "svc_step t s = None \<longleftrightarrow> svc_done t"
  proof (cases t)
    case (PermTask x) then show ?thesis using task_step_returns by (simp add: step_returns_def)
  next
    case (EditTask n e ph) then show ?thesis by (cases ph) (simp_all add: check_step_def)
  next
    case (DestroyTask n ph) then show ?thesis by (cases ph) (simp_all add: check_step_def)
  qed
qed

lemma svc_step_lowers: "step_lowers svc_step svc_weight"
  unfolding step_lowers_def
proof (intro allI impI)
  fix t s t' s' assume st: "svc_step t s = Some (t', s')"
  show "svc_weight t' < svc_weight t"
  proof (cases t)
    case (PermTask x)
    then obtain x' where "task_step x s = Some (x', s')" and "t' = PermTask x'" using st by auto
    with PermTask show ?thesis using step_lowersD [OF task_step_lowers] by simp
  next
    case (EditTask n e ph) with st show ?thesis
      by (cases ph) (auto simp: check_step_def split: sum.splits)
  next
    case (DestroyTask n ph) with st show ?thesis
      by (cases ph) (auto simp: check_step_def split: sum.splits list.splits if_splits)
  qed
qed

lemma svc_step_keeps: "step_keeps svc_step svc_inv svc_task_ok"
  unfolding step_keeps_def
proof (intro allI impI)
  fix t s t' s' assume st: "svc_step t s = Some (t', s')" and inv: "svc_inv s" and ok: "svc_task_ok t"
  show "svc_inv s' \<and> svc_task_ok t'"
  proof (cases t)
    case (PermTask x)
    then obtain x' where x: "task_step x s = Some (x', s')" and t': "t' = PermTask x'" using st by auto
    have "store_decodes s' \<and> task_decodes x'"
      using task_step_decodes [OF x] inv ok PermTask by (simp add: svc_inv_def)
    moreover have "account s' = account s \<and> scuttlespace_user s' = scuttlespace_user s \<and>
        map up_key (user_permissions s') = map up_key (user_permissions s)"
      by (rule task_step_tables [OF x])
    ultimately show ?thesis using inv t' by (simp add: svc_inv_def)
  next
    case (EditTask n e ph)
    show ?thesis
    proof (cases ph)
      case EChecked
      show ?thesis
      proof (cases "update_account (\<lambda>r. network_id r = n) (edit_update e) s")
        case (Inl ex) with st EditTask EChecked inv show ?thesis by auto
      next
        case (Inr s2)
        with st EditTask EChecked have "s' = s2" and "t' = EditTask n e (EDone (LReturned (ValidResult ())))"
          by auto
        with update_account_Inr [OF Inr] inv show ?thesis
          by (metis (no_types, lifting) svc_inv_def db.select_convs(2-4) db.surjective db.update_convs(1)
              store_decodes_def svc_task_ok.simps(2))
      qed
    qed (use st EditTask inv in \<open>auto simp: check_step_def split: sum.splits\<close>)
  next
    case (DestroyTask n ph)
    show ?thesis
    proof (cases ph)
      case DDeleting
      with st DestroyTask inv show ?thesis
        by (auto simp: svc_inv_def store_decodes_def intro: account_unique_delete)
    qed (use st DestroyTask inv in \<open>auto simp: check_step_def split: sum.splits list.splits if_splits\<close>)
  qed
qed


lemma svc_fresh_ok [simp]: "svc_task_ok (svc_fresh r)"
  by (cases r) simp_all

text \<open>A request run alone by its steps reaches its exported function.\<close>

lemma perm_task_run:
  "task_run task_step t s t' s' \<Longrightarrow> task_run svc_step (PermTask t) s (PermTask t') s'"
  by (induction rule: task_run.induct) (auto intro: task_run.intros)

lemma edit_update_fun:
  "edit_update (SetAbout x) = (\<lambda>r. r\<lparr>acc_about := x\<rparr>)"
  "edit_update (SetDomain x) = (\<lambda>r. r\<lparr>acc_domain := Some x\<rparr>)"
  "edit_update (SetUsername x) = (\<lambda>r. r\<lparr>acc_username := x\<rparr>)"
  "edit_update (SetEnabled b) = (\<lambda>r. r\<lparr>acc_enabled := b\<rparr>)"
  by (simp_all add: fun_eq_iff)

lemma edit_atomic_eq:
  "edit_atomic n e s =
     sbind (ensureAccountExists n s) (\<lambda>_.
     sbind (update_account (\<lambda>r. network_id r = n) (edit_update e) s) (\<lambda>s'.
     Inr (ValidResult (), s')))"
proof (cases e)
  case (SetEnabled b) then show ?thesis by (cases b) (simp_all add: lifecycle_defs edit_update_fun)
qed (simp_all add: lifecycle_defs edit_update_fun)

lemma edit_task_run:
  "task_run svc_step (EditTask n e EFresh) s
     (svc_finished (EditReq n e) (fst (svc_atomic (EditReq n e) s))) (snd (svc_atomic (EditReq n e) s))"
proof (cases "ensureAccountExists n s")
  case (Inl ex)
  show ?thesis
    by (rule task_run_one) (simp add: Inl check_step_def edit_atomic_eq lc_result_def)
next
  case (Inr u)
  show ?thesis
  proof (rule task_run.run_step [OF _ task_run_one])
    show "svc_step (EditTask n e EFresh) s = Some (EditTask n e EChecked, s)"
      by (simp add: Inr check_step_def)
    show "svc_step (EditTask n e EChecked) s =
      Some (svc_finished (EditReq n e) (fst (svc_atomic (EditReq n e) s)), snd (svc_atomic (EditReq n e) s))"
      by (simp add: Inr edit_atomic_eq lc_result_def split: sum.splits)
  qed
qed

lemma destroy_task_run:
  "task_run svc_step (DestroyTask n DFresh) s
     (svc_finished (DestroyReq n) (fst (svc_atomic (DestroyReq n) s))) (snd (svc_atomic (DestroyReq n) s))"
proof (cases "ensureAccountExists n s")
  case (Inl ex)
  show ?thesis
    by (rule task_run_one) (simp add: Inl check_step_def destroy_def lc_result_def)
next
  case (Inr u)
  have chk: "svc_step (DestroyTask n DFresh) s = Some (DestroyTask n DChecked, s)"
    by (simp add: Inr check_step_def)
  show ?thesis
  proof (cases "select_rows (\<lambda>r. network_id r = n) (account s)")
    case Nil
    show ?thesis
      by (rule task_run.run_step [of svc_step, OF chk], rule task_run_one) (simp add: Nil Inr destroy_def lc_result_def)
  next
    case (Cons r rs)
    show ?thesis
    proof (cases "acc_enabled r")
      case True
      show ?thesis
        by (rule task_run.run_step [of svc_step, OF chk], rule task_run_one)
           (simp add: Cons True Inr destroy_def lc_result_def)
    next
      case False
      have del: "svc_step (DestroyTask n DChecked) s = Some (DestroyTask n DDeleting, s)"
        by (simp add: Cons False)
      show ?thesis
        by (rule task_run.run_step [of svc_step, OF chk task_run.run_step [of svc_step, OF del task_run_one]])
           (simp add: Cons False Inr destroy_def lc_result_def)
    qed
  qed
qed

lemma svc_atomic_task_run:
  "task_run svc_step (svc_fresh r) s (svc_finished r (fst (svc_atomic r s))) (snd (svc_atomic r s))"
proof (cases r)
  case (PermReq q)
  then show ?thesis using perm_task_run [OF atomic_task_run [of q s]] by (simp add: apfst_fst_snd)
next
  case (EditReq n e) then show ?thesis using edit_task_run [of n e s] by simp
next
  case (DestroyReq n) then show ?thesis using destroy_task_run [of n s] by simp
qed

lemma ensureAccountExists_select:
  "select_rows (\<lambda>r. network_id r = n) (account s) = r # rs \<Longrightarrow> ensureAccountExists n s = Inr ()"
  by (simp add: ensureAccountExists_def)

lemma enable_update_account:
  "account_unique (account s) \<Longrightarrow>
   update_account P (edit_update (SetEnabled b)) s =
     Inr (s\<lparr>account := update_rows P (\<lambda>r. r\<lparr>acc_enabled := b\<rparr>) (account s)\<rparr>)"
  by (simp add: edit_update_fun update_account_keep_keys)

lemma enable_select:
  "select_rows (\<lambda>r. network_id r = n)
     (update_rows (\<lambda>r. network_id r = n) (\<lambda>r. r\<lparr>acc_enabled := b\<rparr>) t) =
   map (\<lambda>r. r\<lparr>acc_enabled := b\<rparr>) (select_rows (\<lambda>r. network_id r = n) t)"
  by (rule select_rows_update_rows) simp

section \<open>Properties\<close>

text \<open>
  Running any list of service requests (permission grants and clears,
  the editors, enable, disable, destroy) one after another, each through its
  awaited queries, is a run of the interleaving of the whole service whose final
  store and responses are those of the exported functions applied in sequence.
\<close>

theorem service_serial:
  "(interleave svc_step)\<^sup>*\<^sup>* (s, map svc_fresh rs)
     (snd (serial svc_atomic rs s), map2 svc_finished rs (fst (serial svc_atomic rs s)))"
  using serial_interleave [where step = svc_step and fresh = svc_fresh and fin = svc_finished
      and f = svc_atomic, OF svc_atomic_task_run, of s "[]" rs]
  by simp

text \<open>
  C21: An account enabled between destroy's SELECT and its DELETE is deleted:
  when destroy reads the account disabled and an enable runs its check and
  UPDATE before destroy's DELETE, both calls return ValidResult and the account,
  now enabled, is gone.
\<close>

theorem destroy_enable_race:
  assumes uniq: "account_unique (account s)"
    and sel: "select_rows (\<lambda>r. network_id r = n) (account s) = r # rs" and dis: "\<not> acc_enabled r"
  shows "run_sched svc_step [0, 0, 1, 1, 0]
           (s, [DestroyTask n DFresh, EditTask n (SetEnabled True) EFresh]) =
         Some (s\<lparr>account := delete_rows (\<lambda>r. network_id r = n)
                   (update_rows (\<lambda>r. network_id r = n) (\<lambda>r. r\<lparr>acc_enabled := True\<rparr>) (account s))\<rparr>,
               [DestroyTask n (DDone (LReturned (ValidResult ()))),
                EditTask n (SetEnabled True) (EDone (LReturned (ValidResult ())))])"
  using ensureAccountExists_select [OF sel] sel dis enable_update_account [OF uniq]
  by (simp add: check_step_def)

text \<open>
  C23: Two destroys of one disabled account, both past their existence check
  before the first deletes, make the second read rows[0].enabled of an empty
  result and throw a TypeError, which destroy run alone never does.
\<close>

theorem double_destroy_type_error:
  assumes sel: "select_rows (\<lambda>r. network_id r = n) (account s) = r # rs" and dis: "\<not> acc_enabled r"
  shows "run_sched svc_step [0, 1, 0, 0, 1] (s, [DestroyTask n DFresh, DestroyTask n DFresh]) =
         Some (s\<lparr>account := delete_rows (\<lambda>r. network_id r = n) (account s)\<rparr>,
               [DestroyTask n (DDone (LReturned (ValidResult ()))),
                DestroyTask n (DDone (LThrew (TypeError ''Cannot read properties of undefined (reading 'enabled')'')))])"
  using ensureAccountExists_select [OF sel] sel dis
  by (simp add: check_step_def select_rows_delete_rows)

text \<open>
  C22: The outcome of that race is not serializable: run one after the other in
  either order, destroy and enable of a disabled account never both return
  ValidResult (enable first makes destroy refuse an active account; destroy first
  makes enable throw USER_NOT_FOUND).
\<close>

theorem destroy_enable_not_serializable:
  assumes uniq: "account_unique (account s)"
    and sel: "select_rows (\<lambda>r. network_id r = n) (account s) = r # rs" and dis: "\<not> acc_enabled r"
  shows "fst (serial svc_atomic [DestroyReq n, EditReq n (SetEnabled True)] s) \<noteq>
           [LResp (LReturned (ValidResult ())), LResp (LReturned (ValidResult ()))] \<and>
         fst (serial svc_atomic [EditReq n (SetEnabled True), DestroyReq n] s) \<noteq>
           [LResp (LReturned (ValidResult ())), LResp (LReturned (ValidResult ()))]"
proof
  show "fst (serial svc_atomic [DestroyReq n, EditReq n (SetEnabled True)] s) \<noteq>
          [LResp (LReturned (ValidResult ())), LResp (LReturned (ValidResult ()))]"
    using ensureAccountExists_select [OF sel] sel dis
    by (simp add: destroy_def enable_def lc_result_def ensureAccountExists_def select_rows_delete_rows
        exception_def)
  show "fst (serial svc_atomic [EditReq n (SetEnabled True), DestroyReq n] s) \<noteq>
          [LResp (LReturned (ValidResult ())), LResp (LReturned (ValidResult ()))]"
    using ensureAccountExists_select [OF sel] sel dis uniq
    by (simp add: destroy_def enable_def lc_result_def ensureAccountExists_def enable_select
        update_account_keep_keys)
qed


theorem destroy_enable_race_witness:
  "run_sched svc_step [0, 0, 1, 1, 0]
     (dormant_db, [DestroyTask ''n1'' DFresh, EditTask ''n1'' (SetEnabled True) EFresh]) =
   Some (empty_db, [DestroyTask ''n1'' (DDone (LReturned (ValidResult ()))),
     EditTask ''n1'' (SetEnabled True) (EDone (LReturned (ValidResult ())))])"
  using destroy_enable_race [where s = dormant_db and n = "''n1''" and r = dormant and rs = "[]"]
  by (simp add: dormant_db_def dormant_def empty_db_def account_unique_def select_rows_def
      update_rows_def delete_rows_def)

theorem destroy_enable_not_serializable_witness:
  "fst (serial svc_atomic [DestroyReq ''n1'', EditReq ''n1'' (SetEnabled True)] dormant_db) \<noteq>
     [LResp (LReturned (ValidResult ())), LResp (LReturned (ValidResult ()))] \<and>
   fst (serial svc_atomic [EditReq ''n1'' (SetEnabled True), DestroyReq ''n1''] dormant_db) \<noteq>
     [LResp (LReturned (ValidResult ())), LResp (LReturned (ValidResult ()))]"
  using destroy_enable_not_serializable [where s = dormant_db and n = "''n1''" and r = dormant and rs = "[]"]
  by (simp add: dormant_db_def dormant_def account_unique_def select_rows_def)

theorem double_destroy_type_error_witness:
  "run_sched svc_step [0, 1, 0, 0, 1] (dormant_db, [DestroyTask ''n1'' DFresh, DestroyTask ''n1'' DFresh]) =
   Some (empty_db, [DestroyTask ''n1'' (DDone (LReturned (ValidResult ()))),
     DestroyTask ''n1'' (DDone (LThrew (TypeError ''Cannot read properties of undefined (reading 'enabled')'')))])"
  using double_destroy_type_error [where s = dormant_db and n = "''n1''" and r = dormant and rs = "[]"]
  by (simp add: dormant_db_def dormant_def empty_db_def select_rows_def delete_rows_def)

end
