(* ===== verification/Spec2Isabelle.thy ===== *)
theory Spec2Isabelle
  imports Lifecycle Service_Races
begin

text \<open>
  \<^bold>\<open>scuttlespace-service-auth: a verification model.\<close>

  \<^emph>\<open>The program.\<close> Five TypeScript files under src/src implement the account
  and permission services of scuttlespace. Each exported function runs a few
  SQL statements against a shared PostgreSQL pool and returns a
  \<open>ServiceResult\<close> (\<open>ValidResult\<close> or \<open>ErrorResult\<close>) or throws:
  \<^item> account registry: \<open>findUser\<close>, \<open>getUserByExternalId\<close>, \<open>getUserByDomain\<close>,
    \<open>getUserByUsername\<close> (user/get.ts, table \<open>scuttlespace_user\<close>) and
    \<open>getUsernameAvailability\<close> (account/get-status.ts, table \<open>account\<close>);
  \<^item> account lifecycle guard: \<open>ensureAccountExists\<close>, \<open>editAbout\<close>,
    \<open>editDomain\<close>, \<open>editUsername\<close>, \<open>enable\<close>, \<open>disable\<close>, \<open>destroy\<close>
    (modify-account.ts, table \<open>account\<close>);
  \<^item> permission codec: the \<open>filter/map/sort/join\<close> chain of clear.ts, and the
    decoder of permissions/get.ts;
  \<^item> permission store: \<open>addPermissions\<close> (add-permissions.ts, table
    \<open>account_permissions\<close>) and \<open>clearPermissions\<close> (permissions/clear.ts, which
    calls \<open>findUser\<close> and \<open>getPermissionsForUser\<close>, table \<open>user_permissions\<close>).
  The components interact only through calls (\<open>clearPermissions\<close> calls the
  registry and the codec) and through the shared store.

  \<^emph>\<open>The theories.\<close>
  \<^item> \<open>Auth_Base\<close>: error codes, exceptions (\<open>exn\<close>), \<open>service_result\<close>,
    JavaScript truthiness, \<open>join\<close>/\<open>split_on\<close> (Array.join, String.split),
    \<open>sbind\<close> (an \<open>await\<close> that may throw), shared list lemmas.
  \<^item> \<open>Store\<close>: the store as a record \<open>db\<close> of four tables, each a list of rows
    (\<open>rows[0]\<close> is the head); SELECT/UPDATE/DELETE/INSERT as list functions;
    the UNIQUE constraints of \<open>account\<close>, enforced by \<open>update_account\<close>;
    \<open>errors.singleOrNone\<close>, \<open>exception\<close>, \<open>parseServiceResult\<close> (imported
    by the sources but not part of them, modelled from the spec).
  \<^item> \<open>Codec\<close>: \<open>IPermission\<close>, \<open>perm_token\<close>, \<open>encode\<close> (code), \<open>parse_token\<close>
    and \<open>decode\<close> (spec), with the round trips.
  \<^item> \<open>Registry\<close>, \<open>Lifecycle\<close>, \<open>Permissions\<close>: one definition per exported
    function, named as in the source, every branch and early return kept.
    An operation maps a store to \<open>exn + result \<times> db\<close>: \<open>Inl\<close> is a thrown
    exception (the store is then unchanged, as no function writes before it
    may throw), \<open>Inr\<close> the returned value with the store after the writes.
  \<^item> \<open>Concurrency\<close>: \<open>addPermissions\<close> and \<open>clearPermissions\<close> split at
    their \<open>await\<close> into a read phase (the SELECTs and the branch taken) and a
    write phase (the INSERT or UPDATE), and two requests run with both reads
    before both writes.
  \<^item> \<open>Interleaving\<close>: any number of permission requests in flight. A
    \<open>task\<close> is a request with the \<open>await\<close> it has reached (\<open>add_phase\<close>,
    \<open>clear_phase\<close>); \<open>add_step\<close> and \<open>clear_step\<close> run its next query and
    the branch on its rows (three per request: two SELECTs, or findUser and
    getPermissionsForUser, then the write); \<open>istep\<close> lets any unfinished
    task step, \<open>run_sched\<close> runs a given schedule, \<open>atomic\<close> and
    \<open>serial atomic\<close> are the requests run alone and one after another.
    The interleaving itself, schedules, single-task runs and the generic
    lemmas (termination from a weight, completion, invariants and counters
    kept by every step, serial runs) are in \<open>Scheduler\<close>, stated for any
    step function.
  \<^item> \<open>Service_Races\<close>: the whole service in flight. The editors,
    \<open>enable\<close> and \<open>disable\<close> are split at their two awaits (\<open>edit_step\<close>:
    \<open>ensureAccountExists\<close> as \<open>check_step\<close>, then the UPDATE of
    \<open>edit_update\<close>), \<open>destroy\<close> at its three (\<open>destroy_step\<close>: the check,
    the SELECT with its branch on \<open>rows[0].enabled\<close>, the DELETE); with the
    permission tasks they form \<open>svc_task\<close>, stepped by \<open>svc_step\<close> under the
    same \<open>Scheduler\<close>; \<open>svc_atomic\<close> is each exported function run alone.
  \<^item> this theory: the whole service as one step function \<open>exec_op\<close> over a
    datatype \<open>op\<close> of calls, the store invariant \<open>db_inv\<close>, the reachable
    stores, the properties that span components, and the witnesses.

  \<^emph>\<open>What the lemmas show.\<close> Codec: the encoding is canonical and sorted,
  decoding an encoding gives the set back, one pass is a normal form.
  Registry: with unique usernames the availability check returns TAKEN for
  any held username and AVAILABLE otherwise, never OWN, since it compares
  \<open>rows[0].external_id\<close>, a property account rows lack (read as
  \<open>undefined\<close> through \<open>account_prop\<close>); it reports duplicates;
  \<open>findUser\<close> runs the lookup of its first truthy selector and returns a
  row matching that selector's column, or none when no row matches. Lifecycle: every operation on a missing account
  throws \<open>USER_NOT_FOUND\<close>; \<open>destroy\<close> refuses enabled accounts and deletes
  disabled ones; \<open>enable\<close>/\<open>disable\<close> change one flag. Permissions: the
  result of \<open>addPermissions\<close> and \<open>clearPermissions\<close> on every branch, their
  frames, that \<open>addPermissions\<close> keeps its key unique by itself, that
  \<open>clearPermissions\<close> refines removal of one module and is idempotent.
  Whole service: every reachable store satisfies the invariant; there no
  data-integrity violation is ever thrown, \<open>clearPermissions\<close> always returns,
  and no relationship row disappears. Concurrency: the two-phase split is the
  atomic function; two concurrent first grants duplicate a row (after which
  the pair is stuck behind a data-integrity violation), and two concurrent
  clears lose one removal. Interleaving: every run is finite and at most
  three steps per request long; some run always completes every request;
  the serial schedule is a run whose store and responses are those of the
  atomic functions, and the two-request schedule of \<open>Concurrency\<close> is a
  run too; under every interleaving the account tables and the keys of
  user_permissions are unchanged, every stored permission string still
  decodes, and the rows of an account_permissions key grow by at most the
  number of grants to it; two interleaved clears end in a store that no
  serial order produces while returning what the serial orders return.
  Lifecycle also shows that renaming onto another account's username or
  domain throws the store's UNIQUE violation. Service_Races: every run of the
  whole service is finite and some run returns every request; running any
  service requests one after another is a run of the whole-service
  interleaving with the results of the exported functions; from a reachable
  store every interleaving keeps the UNIQUE constraints of account, the keys
  of scuttlespace_user and user_permissions and decodable permission strings
  (the key of account_permissions is the one part of \<open>db_inv\<close> concurrency
  breaks); an enable between destroy's SELECT and its DELETE lets destroy
  delete an enabled account, an outcome no serial order has; and two
  destroys of one account make the second throw a \<open>TypeError\<close> from
  \<open>rows[0].enabled\<close>, which destroy run alone never does.

  \<^emph>\<open>Bounds and fuel.\<close> No fuel is needed: every recursion (\<open>join\<close>,
  \<open>split_on\<close>, \<open>traverse\<close>, \<open>run_sched\<close>) is structural and every
  operation is a finite sequence of statements, so all definitions are total
  and executable. The interleaving relation is not a function; its runs are
  bounded by \<open>sched_weight task_weight\<close> (for the whole service
  \<open>svc_weight\<close>), the number of queries the unfinished tasks still issue
  (3, 2, 1, 0 by phase; 2, 1, 0 for an editor), which every step lowers: this gives
  well-foundedness and the bound of three steps per request. Grants to one
  key are bounded by \<open>key_rows\<close> plus the pending grants, an invariant of
  every step.

  \<^emph>\<open>Not modelled.\<close> The connection pool (src/src/pool, \<open>getPool\<close>), SQL
  parameter binding (psychopiggy \<open>Params\<close>), the call context and trace ids,
  and failures of the database connection itself: they are I/O or library
  code the sources only call. The reachable stores of this theory run each
  request atomically; interleavings of every request of the service are
  modelled in \<open>Interleaving\<close> and \<open>Service_Races\<close>, where the sources have
  their check-then-act races. Each SQL statement is one atomic step, as
  PostgreSQL runs a single statement atomically; the reads of the registry
  functions, which write nothing, are not split further.
  Account creation and the writes that create \<open>user_permissions\<close> rows are not
  in the sources; they enter the reachable stores as environment steps
  (\<open>CreateAccount\<close>, \<open>CreateUser\<close>, \<open>CreateUserPermissions\<close>) modelled from
  the spec.

  \<^emph>\<open>Plan for later sittings.\<close> The spec's intended \<open>grant\<close> as an
  abstract specification and its divergence from \<open>addPermissions\<close>; the
  domain and username lookups under the invariant; the bound on the length
  of a whole-service run.
\<close>

section \<open>The service as one step function\<close>

text \<open>The calls a client can make, and the environment's own writes.\<close>

datatype op =
    AddPermissions string string string "string list"
  | ClearPermissions string string string
  | EditAbout string string
  | EditDomain string string
  | EditUsername string string
  | Enable string
  | Disable string
  | Destroy string
  | CreateAccount account_row
  | CreateUser account_row
  | CreateUserPermissions string string "IPermission list"

definition state_after :: "exn + 'r \<times> db \<Rightarrow> db \<Rightarrow> db" where
  "state_after r s = (case r of Inl _ \<Rightarrow> s | Inr (_, s') \<Rightarrow> s')"

fun exec_op :: "op \<Rightarrow> db \<Rightarrow> db" where
  "exec_op (AddPermissions u a c ps) s =
     (case addPermissions u a c ps s of Inl _ \<Rightarrow> s | Inr s' \<Rightarrow> s')"
| "exec_op (ClearPermissions m a b) s = state_after (clearPermissions m a b s) s"
| "exec_op (EditAbout x n) s = state_after (editAbout x n s) s"
| "exec_op (EditDomain x n) s = state_after (editDomain x n s) s"
| "exec_op (EditUsername x n) s = state_after (editUsername x n s) s"
| "exec_op (Enable n) s = state_after (enable n s) s"
| "exec_op (Disable n) s = state_after (disable n s) s"
| "exec_op (Destroy n) s = state_after (destroy n s) s"
| "exec_op (CreateAccount r) s =
     (if account_unique (account s @ [r]) then s\<lparr>account := account s @ [r]\<rparr> else s)"
| "exec_op (CreateUser r) s =
     (if network_id r \<in> set (map network_id (scuttlespace_user s)) then s
      else s\<lparr>scuttlespace_user := scuttlespace_user s @ [r]\<rparr>)"
| "exec_op (CreateUserPermissions a b ps) s =
     (if (a, b) \<in> set (map up_key (user_permissions s)) \<or> \<not> list_all wf_perm ps then s
      else s\<lparr>user_permissions := user_permissions s @
        [\<lparr>up_assignee_external_id = a, up_assigner_external_id = b, up_permissions = Codec.encode ps\<rparr>]\<rparr>)"

text \<open>
  The store invariant: the schema's keys are unique in every table, and every
  stored permission string decodes.
\<close>

definition db_inv :: "db \<Rightarrow> bool" where
  "db_inv s \<longleftrightarrow>
     account_unique (account s) \<and> distinct (map network_id (scuttlespace_user s)) \<and>
     distinct (map ap_key (account_permissions s)) \<and> distinct (map up_key (user_permissions s)) \<and>
     list_all (\<lambda>r. \<exists>ps. Codec.decode (up_permissions r) = Inr ps) (user_permissions s)"

inductive reachable :: "db \<Rightarrow> bool" where
  empty: "reachable empty_db"
| step: "reachable s \<Longrightarrow> reachable (exec_op c s)"

inductive_cases reachable_stepE: "reachable s"

section \<open>Scenario data\<close>

definition alice :: account_row where
  "alice = \<lparr>network_id = ''n1'', acc_username = ''alice'', acc_domain = None, acc_about = '''',
     acc_enabled = False\<rparr>"

definition demo_db :: db where
  "demo_db = \<lparr>account = [alice], scuttlespace_user = [alice], account_permissions = [],
     user_permissions = [\<lparr>up_assignee_external_id = ''bob'', up_assigner_external_id = ''n1'',
       up_permissions = ''docs:write''\<rparr>]\<rparr>"

text \<open>\<open>demo_db\<close> after \<open>addPermissions alice bob n1 [docs:write]\<close>.\<close>

definition granted_db :: db where
  "granted_db = demo_db\<lparr>account_permissions :=
     [\<lparr>ap_network_id = ''bob'', ap_permissions = ''docs:write'', ap_username = ''alice''\<rparr>]\<rparr>"


text \<open>\<open>demo_db\<close> after \<open>clearPermissions docs bob n1\<close>.\<close>

definition cleared_db :: db where
  "cleared_db = demo_db\<lparr>user_permissions :=
     [\<lparr>up_assignee_external_id = ''bob'', up_assigner_external_id = ''n1'', up_permissions = ''''\<rparr>]\<rparr>"

section \<open>The invariant\<close>

lemma state_after_cases:
  "state_after r s = s \<or> (\<exists>res. r = Inr (res, state_after r s))"
  by (auto simp: state_after_def split: sum.splits)

lemma db_inv_account_step:
  assumes "db_inv s" and "account_unique (account s')" and "s' = s\<lparr>account := account s'\<rparr>"
  shows "db_inv s'"
proof -
  have "scuttlespace_user s' = scuttlespace_user s" "account_permissions s' = account_permissions s"
    "user_permissions s' = user_permissions s"
    by (subst assms(3), simp)+
  with assms(1,2) show ?thesis by (simp add: db_inv_def)
qed

lemma db_inv_add:
  assumes "db_inv s" and "addPermissions u a c ps s = Inr s'"
  shows "db_inv s'"
  using addPermissions_cases [OF assms(2)] assms(1)
  by (auto simp: db_inv_def map_update_rows_keep)

lemma db_inv_clear:
  assumes "db_inv s" and "clearPermissions m a b s = Inr (res, s')"
  shows "db_inv s'"
proof -
  have dec: "\<forall>r \<in> set (user_permissions s'). \<exists>ps. Codec.decode (up_permissions r) = Inr ps"
    using clearPermissions_decodes [OF _ assms(2)] assms(1) by (simp add: db_inv_def list_all_iff)
  show ?thesis
    using clearPermissions_cases [OF assms(2)] assms(1) dec
    by (auto simp: db_inv_def map_update_rows_keep list_all_iff)
qed

lemma db_inv_lifecycle:
  assumes "db_inv s"
    and "r \<in> {editAbout x n s, editDomain x n s, editUsername x n s, enable n s, disable n s, destroy n s}"
  shows "db_inv (state_after r s)"
proof -
  have au: "account_unique (account s)" using assms(1) by (simp add: db_inv_def)
  show ?thesis
  proof (cases "state_after r s = s")
    case True
    with assms(1) show ?thesis by simp
  next
    case False
    then obtain res where r: "r = Inr (res, state_after r s)"
      using state_after_cases by blast
    with assms(2) have "account_unique (account (state_after r s)) \<and>
        state_after r s = s\<lparr>account := account (state_after r s)\<rparr>"
      using lifecycle_Inr [OF au] by auto
    then show ?thesis using db_inv_account_step [OF assms(1)] by blast
  qed
qed

lemma db_inv_exec_op:
  assumes "db_inv s"
  shows "db_inv (exec_op c s)"
proof (cases c)
  case (AddPermissions u a c ps)
  then show ?thesis using assms db_inv_add by (simp split: sum.splits)
next
  case (ClearPermissions m a b)
  then show ?thesis using assms db_inv_clear
    by (auto simp: state_after_def split: sum.splits)
next
  case (CreateAccount r)
  then show ?thesis using assms by (simp add: db_inv_def)
next
  case (CreateUser r)
  then show ?thesis using assms by (simp add: db_inv_def)
next
  case (CreateUserPermissions a b ps)
  have "\<exists>qs. Codec.decode (Codec.encode ps) = Inr qs" if "list_all wf_perm ps"
    using decode_encode_sorted that by (simp add: list_all_iff)
  with CreateUserPermissions show ?thesis using assms by (auto simp: db_inv_def)
qed (use assms db_inv_lifecycle in auto)

lemma reachable_db_inv: "reachable s \<Longrightarrow> db_inv s"
proof (induction rule: reachable.induct)
  case empty
  show ?case by (simp add: db_inv_def empty_db_def)
next
  case (step s c)
  then show ?case using db_inv_exec_op by blast
qed


lemma reachable_demo: "reachable demo_db"
proof -
  let ?s1 = "exec_op (CreateAccount alice) empty_db"
  let ?s2 = "exec_op (CreateUser alice) ?s1"
  let ?s3 = "exec_op (CreateUserPermissions ''bob'' ''n1'' [\<lparr>module = ''docs'', permission = ''write''\<rparr>]) ?s2"
  have "reachable ?s3"
    by (intro reachable.step reachable.empty)
  moreover have "?s3 = demo_db"
    by (simp add: demo_db_def empty_db_def alice_def account_unique_def wf_perm_def encode_def perm_token_def)
  ultimately show ?thesis by simp
qed

lemma lifecycle_state_after:
  assumes "r \<in> {editAbout x n s, editDomain x n s, editUsername x n s, enable n s, disable n s, destroy n s}"
  shows "state_after r s = s\<lparr>account := account (state_after r s)\<rparr>"
proof (cases "state_after r s = s")
  case False
  then obtain res where "r = Inr (res, state_after r s)"
    using state_after_cases by blast
  with assms show ?thesis by (rule lifecycle_frame)
qed simp

lemma db_inv_svc_inv: "db_inv s \<Longrightarrow> svc_inv s"
  by (auto simp: db_inv_def svc_inv_def store_decodes_def decodes_def list_all_iff)

lemma findUser_users:
  "scuttlespace_user s' = scuttlespace_user s \<Longrightarrow> findUser q s' = findUser q s"
  by (simp add: findUser_def getUserByDomain_def getUserByUsername_def getUserByExternalId_def)

section \<open>Properties of the whole service\<close>

text \<open>
  C6: the store invariant. In every store reachable from the empty one by
  service calls and the environment's creations, the schema's keys are
  unique in all four tables and every stored permission string decodes.
\<close>

theorem reachable_schema_invariant:
  assumes "reachable s"
  shows "account_unique (account s) \<and> distinct (map network_id (scuttlespace_user s)) \<and>
    distinct (map ap_key (account_permissions s)) \<and> distinct (map up_key (user_permissions s)) \<and>
    (\<forall>r \<in> set (user_permissions s). \<exists>ps. Codec.decode (up_permissions r) = Inr ps)"
  using reachable_db_inv [OF assms] by (simp add: db_inv_def list_all_iff)

text \<open>
  C7: the defensive multi-row checks never fire. In a reachable store,
  \<open>addPermissions\<close> never throws a data-integrity violation and
  \<open>getUsernameAvailability\<close> always returns.
\<close>

theorem reachable_no_integrity_violation:
  assumes "reachable s"
  shows "Permissions.addPermissions u a c ps s \<noteq> Inl (Exception DATA_INTEGRITY_VIOLATION m) \<and>
    (\<exists>v. Registry.getUsernameAvailability u x s = Inr v)"
  using reachable_db_inv [OF assms] addPermissions_no_integrity getUsernameAvailability_total
  by (simp add: db_inv_def)

text \<open>
  C9: clearing always returns. In a reachable store and for a non-empty
  assigner id, \<open>clearPermissions\<close> never throws.
\<close>

theorem reachable_clear_returns:
  assumes "reachable s" and "assigner \<noteq> []"
  shows "\<exists>res s'. Permissions.clearPermissions md assignee assigner s = Inr (res, s')"
  using reachable_db_inv [OF assms(1)] clearPermissions_total [OF assms(2)]
  by (simp add: db_inv_def list_all_iff)

text \<open>
  C27: a relationship never goes back to ABSENT. No service call or
  environment step removes a key from \<open>user_permissions\<close> or
  \<open>account_permissions\<close>.
\<close>

theorem relationship_rows_persist:
  "set (map up_key (user_permissions s)) \<subseteq> set (map up_key (user_permissions (exec_op c s))) \<and>
   set (map ap_key (account_permissions s)) \<subseteq> set (map ap_key (account_permissions (exec_op c s)))"
proof -
  have lc: "user_permissions (state_after r s) = user_permissions s \<and>
      account_permissions (state_after r s) = account_permissions s"
    if "r \<in> {editAbout x n s, editDomain x n s, editUsername x n s, enable n s, disable n s, destroy n s}"
    for r x n
    using arg_cong [OF lifecycle_state_after [OF that], of user_permissions]
      arg_cong [OF lifecycle_state_after [OF that], of account_permissions] by simp
  show ?thesis
  proof (cases c)
    case (AddPermissions u a c' ps)
    then show ?thesis
      by (cases "addPermissions u a c' ps s")
         (auto dest!: addPermissions_cases simp: image_update_rows_keep)
  next
    case (ClearPermissions m a b)
    then show ?thesis
      by (cases "clearPermissions m a b s")
         (auto simp: state_after_def dest!: clearPermissions_cases simp: image_update_rows_keep)
  next
    case (EditAbout x n)
    then show ?thesis using lc [of "editAbout x n s" x n] by simp
  next
    case (EditDomain x n)
    then show ?thesis using lc [of "editDomain x n s" x n] by simp
  next
    case (EditUsername x n)
    then show ?thesis using lc [of "editUsername x n s" x n] by simp
  next
    case (Enable n)
    then show ?thesis using lc [of "enable n s" _ n] by simp
  next
    case (Disable n)
    then show ?thesis using lc [of "disable n s" _ n] by simp
  next
    case (Destroy n)
    then show ?thesis using lc [of "destroy n s" _ n] by simp
  qed auto
qed

text \<open>
  The spec's destroy scenario. The disabled account \<open>n1\<close>/\<open>alice\<close> is
  destroyed and its row removed.
\<close>

theorem spec_scenario_destroy:
  "Lifecycle.destroy ''n1'' demo_db = Inr (ValidResult (), demo_db\<lparr>account := []\<rparr>)"
  by (simp add: destroy_def demo_db_def alice_def ensureAccountExists_def select_rows_def delete_rows_def)

text \<open>
  The spec's grant scenario, run on \<open>addPermissions\<close>. Granting
  \<open>docs:write\<close> and then \<open>docs:read\<close> leaves \<open>docs:read\<close>, as the spec
  expects; but granting \<open>docs:write\<close> and then \<open>blog:read\<close> leaves only
  \<open>blog:read\<close>: the second grant replaces the first instead of adding a module.
\<close>

theorem spec_scenario_grant:
  "sbind (Permissions.addPermissions ''alice'' ''bob'' ''n1'' [''docs:write''] demo_db)
     (Permissions.addPermissions ''alice'' ''bob'' ''n1'' [''docs:read'']) =
     Inr (demo_db\<lparr>account_permissions :=
       [\<lparr>ap_network_id = ''bob'', ap_permissions = ''docs:read'', ap_username = ''alice''\<rparr>]\<rparr>) \<and>
   sbind (Permissions.addPermissions ''alice'' ''bob'' ''n1'' [''docs:write''] demo_db)
     (Permissions.addPermissions ''alice'' ''bob'' ''n1'' [''blog:read'']) =
     Inr (demo_db\<lparr>account_permissions :=
       [\<lparr>ap_network_id = ''bob'', ap_permissions = ''blog:read'', ap_username = ''alice''\<rparr>]\<rparr>)"
  by (simp add: addPermissions_def demo_db_def alice_def select_rows_def insert_row_def update_rows_def
      Let_def)

text \<open>
  The spec's clear scenario. Clearing \<open>docs\<close> from the pair
  (\<open>bob\<close>, \<open>n1\<close>) holding \<open>docs:write\<close> returns the assigner's username and
  leaves the row in place with the empty string.
\<close>

theorem spec_scenario_clear:
  "Permissions.clearPermissions ''docs'' ''bob'' ''n1'' demo_db =
     Inr (ValidResult \<lparr>cleared_username = ''alice''\<rparr>,
          demo_db\<lparr>user_permissions := [\<lparr>up_assignee_external_id = ''bob'', up_assigner_external_id = ''n1'',
            up_permissions = ''''\<rparr>]\<rparr>)"
  by (simp add: clearPermissions_def findUser_def getUserByExternalId_def getPermissionsForUser_def
      demo_db_def alice_def select_rows_def singleOrNone_def decode_def parse_token_def encode_def
      update_rows_def)


text \<open>
  C20: the part of the invariant that survives concurrency. Under any
  interleaving of any service requests (grants, clears, editors, enable,
  disable, destroy) started from a reachable store, the UNIQUE constraints of
  account, the keys of scuttlespace_user and user_permissions and the
  decodability of every stored permission string hold in every store the run
  passes through.
\<close>

theorem interleaved_service_invariant:
  assumes "reachable s" and "(interleave svc_step)\<^sup>*\<^sup>* (s, map svc_fresh rs) (s', ts)"
  shows "svc_inv s'"
  using interleave_invariant [OF svc_step_keeps assms(2)] db_inv_svc_inv [OF reachable_db_inv [OF assms(1)]]
  by (simp add: list_all_iff)

text \<open>
  C35: a destroyed account is still found. After \<open>destroy\<close> succeeds no
  account row has the network id, yet \<open>findUser\<close> returns exactly what it
  returned before: the lifecycle writes table account, the registry reads
  scuttlespace_user.
\<close>

theorem destroy_user_still_found:
  assumes "destroy n s = Inr (ValidResult (), s')"
  shows "select_rows (\<lambda>r. network_id r = n) (account s') = [] \<and> findUser q s' = findUser q s"
proof -
  have "s' = s\<lparr>account := delete_rows (\<lambda>r. network_id r = n) (account s)\<rparr>"
  proof (cases "select_rows (\<lambda>r. network_id r = n) (account s)")
    case Nil
    with assms show ?thesis by (simp add: destroy_def sbind_eq_Inr)
  next
    case (Cons r rs)
    with assms show ?thesis
      by (cases "acc_enabled r") (simp_all add: destroy_def sbind_eq_Inr)
  qed
  then have "select_rows (\<lambda>r. network_id r = n) (account s') = []"
    and "scuttlespace_user s' = scuttlespace_user s"
    by (simp_all add: select_rows_delete_rows)
  then show ?thesis using findUser_users by blast
qed

section \<open>Witnesses\<close>

text \<open>
  Each theorem with hypotheses applied at a concrete store built from the
  scenario data, its hypotheses discharged by evaluation.
\<close>

lemmas demo_simps = demo_db_def granted_db_def cleared_db_def alice_def select_rows_def update_rows_def delete_rows_def
  insert_row_def singleOrNone_def Let_def

theorem clearPermissions_refines_witness:
  "\<exists>res s' qs. Permissions.clearPermissions ''docs'' ''bob'' ''n1'' demo_db = Inr (res, s') \<and>
    Permissions.getPermissionsForUser ''bob'' ''n1'' s' = Inr (ValidResult (Some \<lparr>permissions = qs\<rparr>)) \<and>
    mset qs = filter_mset (\<lambda>x. module x \<noteq> ''docs'') (mset [\<lparr>module = ''docs'', permission = ''write''\<rparr>])"
  by (rule clearPermissions_refines [where u = alice and i = 0])
     (simp_all add: demo_simps decode_def parse_token_def)

theorem clearPermissions_spec_witness:
  "Permissions.clearPermissions ''docs'' ''bob'' ''n1'' demo_db =
    Inr (ValidResult \<lparr>cleared_username = acc_username alice\<rparr>,
         demo_db\<lparr>user_permissions := (user_permissions demo_db)[0 :=
           (user_permissions demo_db ! 0)\<lparr>up_permissions :=
             Codec.encode (filter (\<lambda>x. module x \<noteq> ''docs'') [\<lparr>module = ''docs'', permission = ''write''\<rparr>])\<rparr>]\<rparr>)"
  by (rule clearPermissions_spec) (simp_all add: demo_simps decode_def parse_token_def)

theorem addPermissions_replace_witness:
  "Permissions.addPermissions (acc_username alice) ''bob'' (network_id alice) [''docs:read''] granted_db =
   Inr (granted_db\<lparr>account_permissions := (account_permissions granted_db)[0 :=
       (account_permissions granted_db ! 0)\<lparr>ap_permissions := join CHR '','' [''docs:read'']\<rparr>]\<rparr>)"
  by (rule addPermissions_replace) (simp_all add: demo_simps account_unique_def)

theorem addPermissions_insert_witness:
  "Permissions.addPermissions (acc_username alice) ''bob'' (network_id alice) [''docs:write''] demo_db =
    Inr (demo_db\<lparr>account_permissions := account_permissions demo_db @
      [\<lparr>ap_network_id = ''bob'', ap_permissions = join CHR '','' [''docs:write''], ap_username = acc_username alice\<rparr>]\<rparr>)"
  by (rule addPermissions_insert) (simp_all add: demo_simps account_unique_def)

theorem addPermissions_no_manage_witness:
  "Permissions.addPermissions ''alice'' ''bob'' ''n2'' [''docs:write''] demo_db =
    Inl (Exception NO_MANAGE_PERMISSION (''n2'' @ '' cannot manage permissions for username '' @ ''alice'' @ ''.''))"
  by (rule addPermissions_no_manage) (simp add: demo_simps)


lemmas clear_simps = clearPermissions_def findUser_def getUserByExternalId_def getPermissionsForUser_def
  decode_def parse_token_def encode_def

theorem addPermissions_key_unique_witness:
  "distinct (map ap_key (account_permissions granted_db))"
  by (rule addPermissions_key_unique [where s = demo_db and uname = "''alice''" and assignee = "''bob''"
        and caller = "''n1''" and perms = "[''docs:write'']"])
     (simp_all add: demo_simps addPermissions_def)

theorem addPermissions_frame_witness:
  "granted_db = demo_db\<lparr>account_permissions := account_permissions granted_db\<rparr>"
  by (rule addPermissions_frame [where uname = "''alice''" and assignee = "''bob''"
        and caller = "''n1''" and perms = "[''docs:write'']"])
     (simp add: demo_simps addPermissions_def)

theorem addPermissions_invisible_witness:
  "Permissions.getPermissionsForUser ''bob'' ''n1'' granted_db =
   Permissions.getPermissionsForUser ''bob'' ''n1'' demo_db"
  by (rule addPermissions_invisible [where u = "''alice''" and a = "''bob''"
        and c = "''n1''" and ps = "[''docs:write'']"])
     (simp add: demo_simps addPermissions_def)

theorem clearPermissions_idempotent_witness:
  "Permissions.clearPermissions ''docs'' ''bob'' ''n1'' cleared_db =
     Inr (ValidResult \<lparr>cleared_username = ''alice''\<rparr>, cleared_db)"
  by (rule clearPermissions_idempotent [where s = demo_db])
     (simp add: demo_simps cleared_db_def clear_simps)

theorem clearPermissions_frame_witness:
  "cleared_db = demo_db\<lparr>user_permissions := user_permissions cleared_db\<rparr> \<and>
   map up_key (user_permissions cleared_db) = map up_key (user_permissions demo_db)"
  by (rule clearPermissions_frame [where md = "''docs''" and a = "''bob''" and b = "''n1''"
        and res = "ValidResult \<lparr>cleared_username = ''alice''\<rparr>"])
     (simp add: demo_simps cleared_db_def clear_simps)

theorem clearPermissions_no_row_witness:
  "Permissions.clearPermissions ''docs'' ''carol'' ''n1'' demo_db =
    Inr (ValidResult \<lparr>cleared_username = acc_username alice\<rparr>, demo_db)"
  by (rule clearPermissions_no_row) (simp_all add: demo_simps)

theorem clearPermissions_no_account_witness:
  "Permissions.clearPermissions ''docs'' ''bob'' ''n2'' demo_db =
    Inr (ErrorResult NO_ACCOUNT (''n2'' @ '' does not have an user. Create an user first.''), demo_db)"
  by (rule clearPermissions_no_account) (simp_all add: demo_simps)

theorem clearPermissions_malformed_witness:
  "Permissions.clearPermissions ''docs'' ''bob'' ''n1''
     (demo_db\<lparr>user_permissions := [\<lparr>up_assignee_external_id = ''bob'', up_assigner_external_id = ''n1'',
        up_permissions = ''docs''\<rparr>]\<rparr>) =
   Inl (Exception MALFORMED_PERMISSION_TOKEN (''Malformed permission token '' @ ''docs''))"
  by (rule clearPermissions_malformed [where u = alice and i = 0])
     (simp_all add: demo_simps decode_def parse_token_def)

theorem reachable_schema_invariant_witness:
  "account_unique (account demo_db) \<and> distinct (map network_id (scuttlespace_user demo_db)) \<and>
    distinct (map ap_key (account_permissions demo_db)) \<and> distinct (map up_key (user_permissions demo_db)) \<and>
    list_all (\<lambda>r. \<exists>ps. Codec.decode (up_permissions r) = Inr ps) (user_permissions demo_db)"
  using reachable_schema_invariant [OF reachable_demo] by (simp add: list_all_iff)

theorem reachable_no_integrity_violation_witness:
  "Permissions.addPermissions ''alice'' ''bob'' ''n1'' [''docs:write''] demo_db \<noteq>
     Inl (Exception DATA_INTEGRITY_VIOLATION ''Expected a single row or none.'') \<and>
   (\<exists>v. Registry.getUsernameAvailability ''alice'' ''n1'' demo_db = Inr v)"
  by (rule reachable_no_integrity_violation) (rule reachable_demo)

theorem reachable_clear_returns_witness:
  "\<exists>res s'. Permissions.clearPermissions ''docs'' ''bob'' ''n1'' demo_db = Inr (res, s')"
  by (rule reachable_clear_returns) (simp_all add: reachable_demo)

theorem destroy_active_witness:
  "Lifecycle.destroy (network_id (alice\<lparr>acc_enabled := True\<rparr>)) (demo_db\<lparr>account := [alice\<lparr>acc_enabled := True\<rparr>]\<rparr>) =
    Inr (ErrorResult CANNOT_DELETE_ACTIVE_ACCOUNT ''An account in active status cannot be deleted.'',
         demo_db\<lparr>account := [alice\<lparr>acc_enabled := True\<rparr>]\<rparr>)"
  by (rule destroy_active) (simp_all add: demo_simps account_unique_def)

theorem destroy_disabled_witness:
  "Lifecycle.destroy (network_id alice) demo_db =
    Inr (ValidResult (), demo_db\<lparr>account := remove1 alice (account demo_db)\<rparr>)"
  by (rule destroy_disabled) (simp_all add: demo_simps account_unique_def)

theorem lifecycle_guard_witness:
  "Lifecycle.editAbout ''hi'' ''n2'' demo_db = Inl (Exception USER_NOT_FOUND (''The user '' @ ''n2'' @ '' does not exist.'')) \<and>
    Lifecycle.editDomain ''a.b'' ''n2'' demo_db = Inl (Exception USER_NOT_FOUND (''The user '' @ ''n2'' @ '' does not exist.'')) \<and>
    Lifecycle.editUsername ''bob'' ''n2'' demo_db = Inl (Exception USER_NOT_FOUND (''The user '' @ ''n2'' @ '' does not exist.'')) \<and>
    Lifecycle.enable ''n2'' demo_db = Inl (Exception USER_NOT_FOUND (''The user '' @ ''n2'' @ '' does not exist.'')) \<and>
    Lifecycle.disable ''n2'' demo_db = Inl (Exception USER_NOT_FOUND (''The user '' @ ''n2'' @ '' does not exist.'')) \<and>
    Lifecycle.destroy ''n2'' demo_db = Inl (Exception USER_NOT_FOUND (''The user '' @ ''n2'' @ '' does not exist.''))"
  by (rule lifecycle_guard) (simp add: demo_simps)

theorem enable_disable_spec_witness:
  "Lifecycle.enable (network_id (account demo_db ! 0)) demo_db =
      Inr (ValidResult (), demo_db\<lparr>account := (account demo_db)[0 := (account demo_db ! 0)\<lparr>acc_enabled := True\<rparr>]\<rparr>) \<and>
    Lifecycle.disable (network_id (account demo_db ! 0)) demo_db =
      Inr (ValidResult (), demo_db\<lparr>account := (account demo_db)[0 := (account demo_db ! 0)\<lparr>acc_enabled := False\<rparr>]\<rparr>)"
  by (rule enable_disable_spec) (simp_all add: demo_simps account_unique_def)

theorem getUsernameAvailability_never_own_witness:
  "account_unique (account demo_db) \<and>
   Registry.getUsernameAvailability ''alice'' ''n1'' demo_db = Inr (ValidResult \<lparr>status = Taken\<rparr>)"
  using getUsernameAvailability_never_own [of demo_db "''alice''" "''n1''"]
  by (simp add: demo_simps account_unique_def)

theorem getUsernameAvailability_duplicate_witness:
  "Registry.getUsernameAvailability ''alice'' ''n1'' (demo_db\<lparr>account := [alice, alice\<lparr>network_id := ''n2''\<rparr>]\<rparr>) =
    Inl (Exception DATA_INTEGRITY_VIOLATION ''Expected a single row or none.'')"
  by (rule getUsernameAvailability_duplicate) (simp add: demo_simps)

theorem findUser_no_selector_witness:
  "Registry.findUser \<lparr>args_domain = None, args_externalId = Some [], args_username = None\<rparr> demo_db =
    Inl (Exception INVALID_ARGS ''One of username, domain or externalId needs to be specified.'')"
  by (rule findUser_no_selector) simp_all

theorem findUser_selects_witness:
  "Registry.findUser \<lparr>args_domain = None, args_externalId = Some ''n9'', args_username = Some ''alice''\<rparr> demo_db =
     Inr (ValidResult (Some (user_of alice))) \<and>
   find_matches \<lparr>args_domain = None, args_externalId = Some ''n9'', args_username = Some ''alice''\<rparr> alice \<and>
   alice \<in> set (scuttlespace_user demo_db)"
  using findUser_selects [of "\<lparr>args_domain = None, args_externalId = Some ''n9'', args_username = Some ''alice''\<rparr>"
      demo_db "user_of alice"]
  by (simp add: demo_simps findUser_def getUserByUsername_def user_of_def find_matches_def)

theorem concurrent_clears_lose_update_witness:
  "Permissions.clearPermissions ''blog'' ''bob'' ''n1'' demo_db =
     Inr (ValidResult \<lparr>cleared_username = ''alice''\<rparr>,
          concurrent_clear (''docs'', ''bob'', ''n1'') (''blog'', ''bob'', ''n1'') demo_db) \<and>
   getPermissionsForUser ''bob'' ''n1'' (concurrent_clear (''docs'', ''bob'', ''n1'') (''blog'', ''bob'', ''n1'') demo_db) =
     Inr (ValidResult (Some \<lparr>permissions = [\<lparr>module = ''docs'', permission = ''write''\<rparr>]\<rparr>))"
proof -
  have u: "parseServiceResult (findUser \<lparr>args_domain = None, args_externalId = Some ''n1'', args_username = None\<rparr> demo_db) =
      Inr (Some (user_of alice))"
    by (simp add: demo_simps findUser_def getUserByExternalId_def user_of_def)
  have p: "getPermissionsForUser ''bob'' ''n1'' demo_db =
      Inr (ValidResult (Some \<lparr>permissions = [\<lparr>module = ''docs'', permission = ''write''\<rparr>]\<rparr>))"
    by (simp add: demo_simps getPermissionsForUser_def singleOrNone_def decode_def parse_token_def)
  show ?thesis
    using concurrent_clears_lose_update [of _ _ _ _ _ "''blog''" "''docs''", OF u p]
    by (simp add: user_of_def alice_def)
qed

theorem findUser_duplicates_witness:
  "1 < length (filter (find_matches \<lparr>args_domain = None, args_externalId = None, args_username = Some ''alice''\<rparr>)
      (scuttlespace_user (demo_db\<lparr>scuttlespace_user := [alice, alice\<lparr>network_id := ''n2''\<rparr>]\<rparr>))) \<and>
   Registry.findUser \<lparr>args_domain = None, args_externalId = None, args_username = Some ''alice''\<rparr>
     (demo_db\<lparr>scuttlespace_user := [alice, alice\<lparr>network_id := ''n2''\<rparr>]\<rparr>) =
   Inr (ValidResult (Some (user_of alice)))"
  using findUser_duplicates [of "\<lparr>args_domain = None, args_externalId = None, args_username = Some ''alice''\<rparr>"
      "demo_db\<lparr>scuttlespace_user := [alice, alice\<lparr>network_id := ''n2''\<rparr>]\<rparr>"]
  by (simp add: find_matches_def alice_def)

theorem destroy_user_still_found_witness:
  "destroy ''n1'' demo_db = Inr (ValidResult (), demo_db\<lparr>account := []\<rparr>) \<and>
   select_rows (\<lambda>r. network_id r = ''n1'') (account (demo_db\<lparr>account := []\<rparr>)) = [] \<and>
   Registry.findUser \<lparr>args_domain = None, args_externalId = Some ''n1'', args_username = None\<rparr> (demo_db\<lparr>account := []\<rparr>) =
   Inr (ValidResult (Some (user_of alice)))"
proof -
  have d: "destroy ''n1'' demo_db = Inr (ValidResult (), demo_db\<lparr>account := []\<rparr>)"
    by (simp add: demo_simps destroy_def ensureAccountExists_def sbind_def)
  show ?thesis
    using d destroy_user_still_found [OF d, of "\<lparr>args_domain = None, args_externalId = Some ''n1'', args_username = None\<rparr>"]
    by (simp add: demo_simps findUser_def getUserByExternalId_def user_of_def)
qed

theorem getUserByExternalId_spec_witness:
  "Registry.getUserByExternalId ''n1'' demo_db = ValidResult (Some (user_of alice))"
  using getUserByExternalId_spec [of demo_db "''n1''" "user_of alice"] by (simp add: demo_simps)

theorem concurrent_grants_duplicate_witness:
  "length (filter (\<lambda>r. ap_key r = (acc_username alice, ''bob''))
      (account_permissions (concurrent_add (acc_username alice, ''bob'', network_id alice, [''docs:write''])
         (acc_username alice, ''bob'', network_id alice, [''docs:read'']) demo_db))) = 2 \<and>
    Permissions.addPermissions (acc_username alice) ''bob'' (network_id alice) [''blog:read'']
      (concurrent_add (acc_username alice, ''bob'', network_id alice, [''docs:write''])
         (acc_username alice, ''bob'', network_id alice, [''docs:read'']) demo_db) =
    Inl (Exception DATA_INTEGRITY_VIOLATION ''Expected a single row or none.'')"
  by (rule concurrent_grants_duplicate) (simp_all add: demo_simps account_unique_def)

theorem interleaved_service_invariant_witness:
  "reachable demo_db \<and>
   (interleave svc_step)\<^sup>*\<^sup>* (demo_db, map svc_fresh [DestroyReq ''n1'', EditReq ''n1'' (SetEnabled True)])
     (demo_db\<lparr>account := []\<rparr>, [DestroyTask ''n1'' (DDone (LReturned (ValidResult ()))),
        EditTask ''n1'' (SetEnabled True) (EDone (LReturned (ValidResult ())))]) \<and>
   svc_inv (demo_db\<lparr>account := []\<rparr>)"
proof -
  have r: "run_sched svc_step [0, 0, 1, 1, 0]
      (demo_db, map svc_fresh [DestroyReq ''n1'', EditReq ''n1'' (SetEnabled True)]) =
    Some (demo_db\<lparr>account := []\<rparr>, [DestroyTask ''n1'' (DDone (LReturned (ValidResult ()))),
        EditTask ''n1'' (SetEnabled True) (EDone (LReturned (ValidResult ())))])"
    by (simp add: demo_simps check_step_def ensureAccountExists_def update_account_def account_unique_def)
  show ?thesis
    using interleaved_service_invariant [OF reachable_demo run_sched_interleave [OF r]]
      reachable_demo run_sched_interleave [OF r] by simp
qed

end
